theory Spec2Isabelle
  imports Main
begin

unbundle bit_operations_syntax

section \<open>Values shared by the scraper and the orchestrator\<close>

text \<open>
  JavaScript raises a \<open>TypeError\<close> when a property of \<open>null\<close> or \<open>undefined\<close> is read.
  Every such read of the sources is a branch of the model; a function that can raise
  returns \<open>js_error + 'a\<close> with \<open>Inl\<close> for the exception.
\<close>

datatype js_error = TypeError

text \<open>
  Strings are lists of code units below 256. \<open>String.prototype.trim\<close> removes the white
  space and line terminators of ECMAScript from both ends; of those, the code units below
  256 are TAB, LF, VT, FF, CR, SPACE and NBSP.
\<close>

definition isWhiteSpace :: "char \<Rightarrow> bool" where
  "isWhiteSpace c = (of_char c \<in> {9, 10, 11, 12, 13, 32, 160 :: nat})"

definition trim :: "string \<Rightarrow> string" where
  "trim s = rev (dropWhile isWhiteSpace (rev (dropWhile isWhiteSpace s)))"

text \<open>The fields of a parsed URL object that the sources read.\<close>

record url =
  protocol :: string
  href :: string

record auth_info =
  username :: string
  password :: string

subsection \<open>Link\<close>

text \<open>
  Modelled from the spec: the module \<open>Link\<close> (\<open>Link.create\<close>, \<open>Link.resolve\<close>) is not among
  the sources. Section 3 of the specification gives the fields of a link; the record has
  those that \<open>scrapeHtml\<close>, \<open>HtmlChecker\<close> and \<open>UrlChecker\<close> read and write, under the
  names the sources use (\<open>html_index\<close> is \<open>link.html.index\<close>, \<open>url_rebased\<close> is
  \<open>link.url.rebased\<close>). Fields that are \<open>null\<close> until a later stage fills them are
  options; \<open>url_rebased\<close> is \<open>None\<close> when the resolution of section 4.2 fails and yields
  no URL object.
\<close>

record html_info =
  html_attrs :: "(string \<times> string) list option"
  html_attrName :: string
  html_base :: "string option"
  html_index :: int
  html_offsetIndex :: "int option"
  html_selector :: string
  html_tag :: string
  html_tagName :: string
  html_text :: "string option"

record link =
  html :: html_info
  url_original :: string
  url_rebased :: "url option"
  internal :: "bool option"
  samePage :: "bool option"
  excluded :: "bool option"
  excludedReason :: "string option"
  broken :: "bool option"
  brokenReason :: "string option"

subsection \<open>Robot directives\<close>

text \<open>
  Modelled from the spec: the directive collector (package \<open>robot-directives\<close>) is an external
  collaborator, "an opaque directive collector" that is fed \<open>(name, content)\<close> pairs in
  document order, later entries adding to earlier ones. The collector keeps what it was
  fed; how a directive is decided from that is a parameter (\<open>robots_is\<close> below).
\<close>

datatype directive = NOFOLLOW | NOINDEX | NOIMAGEINDEX

record robot_directives =
  rd_userAgent :: string
  rd_entries :: "(string \<times> string) list"

definition new_RobotDirectives :: "string \<Rightarrow> robot_directives" where
  "new_RobotDirectives ua = \<lparr>rd_userAgent = ua, rd_entries = []\<rparr>"

definition robots_meta :: "robot_directives \<Rightarrow> string \<Rightarrow> string \<Rightarrow> robot_directives" where
  "robots_meta r name content = r\<lparr>rd_entries := rd_entries r @ [(name, content)]\<rparr>"

subsection \<open>Options\<close>

text \<open>
  \<open>customFilter\<close> returns either an object with \<open>excluded\<close> and \<open>excludedReason\<close> (a
  string), or any other value, of which only the truthiness is read.
\<close>

datatype filter_result = FilterObject bool string | FilterValue bool

type_synonym tag_table = "string \<Rightarrow> (string \<Rightarrow> bool) option"

record options =
  tags :: "tag_table list"
  filterLevel :: nat
  excludeExternalLinks :: bool
  excludeInternalLinks :: bool
  excludeLinksToSamePage :: bool
  excludedSchemes :: "string \<Rightarrow> bool"
  excludedKeywords :: "string list"
  honorRobotExclusions :: bool
  customFilter :: "link \<Rightarrow> filter_result"
  userAgent :: string

subsection \<open>External collaborators\<close>

text \<open>
  Functions of packages and of modules that are not among the sources. Each is a
  parameter of the model; nothing is assumed about what it computes. They return
  normally, but for \<open>transitiveAuth\<close>, which parses the URL of the page that the caller of
  \<open>scan\<close> passes and may raise.
  \<^item> \<open>parseMetaRefresh s\<close> is \<open>parseMetaRefresh(s).url\<close> (\<open>None\<close> for null or undefined),
  \<^item> \<open>list2Array s\<close> is \<open>list2Array(s, ",")\<close>,
  \<^item> \<open>parseSrcset s\<close> is \<open>parseSrcset(s).map(image => image.url)\<close>,
  \<^item> \<open>isBot\<close> is \<open>RobotDirectives.isBot\<close>, \<open>robots_is r d\<close> is \<open>r.is(d)\<close>,
  \<^item> \<open>linkTypes_nofollow rel\<close> is the truthiness of \<open>linkTypes(rel).nofollow\<close>,
  \<^item> \<open>matchUrl\<close> and \<open>transitiveAuth\<close> are the modules of these names,
  \<^item> \<open>schedulable u\<close> says whether the request queue accepts \<open>u\<close> (see \<open>rq_enqueue\<close>),
  \<^item> \<open>condenseWhitespace\<close> is the package of this name,
  \<^item> \<open>resolveUrl url base pageUrl\<close> is what \<open>Link.resolve\<close> computes from the raw URL, the
    \<open>base\<close> of the document and the URL of the page: the rebased URL (\<open>None\<close> when there is
    none), \<open>internal\<close> and \<open>samePage\<close>.
\<close>

record ext =
  parseMetaRefresh :: "string option \<Rightarrow> string option"
  list2Array :: "string option \<Rightarrow> string list"
  parseSrcset :: "string option \<Rightarrow> string list"
  isBot :: "string \<Rightarrow> bool"
  robots_is :: "robot_directives \<Rightarrow> directive \<Rightarrow> bool"
  linkTypes_nofollow :: "string \<Rightarrow> bool"
  matchUrl :: "string \<Rightarrow> string list \<Rightarrow> bool"
  transitiveAuth :: "string \<Rightarrow> auth_info option \<Rightarrow> js_error + auth_info option \<times> url"
  schedulable :: "url option \<Rightarrow> bool"
  condenseWhitespace :: "string \<Rightarrow> string"
  resolveUrl :: "string \<Rightarrow> string option \<Rightarrow> url option \<Rightarrow> url option \<times> bool option \<times> bool option"

text \<open>\<open>r.oneIs(ds)\<close>: one of the directives \<open>ds\<close> holds.\<close>

definition robots_oneIs :: "ext \<Rightarrow> robot_directives \<Rightarrow> directive list \<Rightarrow> bool" where
  "robots_oneIs X r ds = list_ex (robots_is X r) ds"

section \<open>The HTML link scraper\<close>

subsection \<open>Strings\<close>

text \<open>\<open>String.prototype.toLowerCase\<close> on code units below 256.\<close>

definition toLowerCase_char :: "char \<Rightarrow> char" where
  "toLowerCase_char c =
     (let n = (of_char c :: nat) in
      if (65 \<le> n \<and> n \<le> 90) \<or> (192 \<le> n \<and> n \<le> 222 \<and> n \<noteq> 215) then char_of (n + 32) else c)"

definition toLowerCase :: "string \<Rightarrow> string" where
  "toLowerCase s = map toLowerCase_char s"

text \<open>\<open>Array.prototype.join\<close> on an array of strings.\<close>

fun join :: "string \<Rightarrow> string list \<Rightarrow> string" where
  "join sep [] = []"
| "join sep [x] = x"
| "join sep (x # y # ys) = x @ sep @ join sep (y # ys)"

text \<open>The decimal digits of a number, as a template literal writes it.\<close>

definition digit :: "nat \<Rightarrow> char" where
  "digit d = ''0123456789'' ! d"

function string_of_nat :: "nat \<Rightarrow> string" where
  "string_of_nat n = (if n < 10 then [digit n] else string_of_nat (n div 10) @ [digit (n mod 10)])"
  by pat_completeness auto
termination
  by (relation "measure (\<lambda>n. n)") auto

subsection \<open>The parsed document\<close>

text \<open>
  A node of the tree that the parser yields: \<open>nodeName\<close>, \<open>attrs\<close> (the array of names and
  values of an element), \<open>attrMap\<close> (the object that \<open>parseHtml\<close> adds to an element: its
  attributes by name; empty for other nodes), \<open>value\<close> (of a text node) and \<open>childNodes\<close>
  (\<open>None\<close> for a node that has no such property: a doctype, a text, a comment).

  A node of the model has no pointer to its parent. A node is addressed by its path, the
  child indices from the document down to it, and \<open>node.parentNode\<close> is the node at the
  path without its last index; \<open>child !== node\<close> compares the indices.
\<close>

datatype node =
  Node (nodeName: string) (attrs: "(string \<times> string) list") (attrMap: "(string \<times> string) list")
    (nodeValue: string) (childNodes: "node list option")

fun node_at :: "node \<Rightarrow> nat list \<Rightarrow> node option" where
  "node_at n [] = Some n"
| "node_at n (k # ks) =
     (case childNodes n of
        None \<Rightarrow> None
      | Some cs \<Rightarrow> if k < length cs then node_at (cs ! k) ks else None)"

text \<open>
  \<open>walk(node, callback)\<close>: the callback gets the path of the node, the node and the state
  it works on; its result \<open>False\<close> is the \<open>false\<close> that kills the walk, and the result of
  \<open>walk\<close> is \<open>False\<close> when the walk was killed.
\<close>

fun walk :: "(nat list \<Rightarrow> node \<Rightarrow> 's \<Rightarrow> js_error + bool \<times> 's) \<Rightarrow> nat list \<Rightarrow> node \<Rightarrow> 's \<Rightarrow> js_error + bool \<times> 's"
  and walk_childNodes :: "(nat list \<Rightarrow> node \<Rightarrow> 's \<Rightarrow> js_error + bool \<times> 's) \<Rightarrow> nat list \<Rightarrow> nat \<Rightarrow> node list \<Rightarrow> 's \<Rightarrow> js_error + bool \<times> 's"
  where
  "walk callback p (Node n a m v cso) s =
     (case callback p (Node n a m v cso) s of
        Inl e \<Rightarrow> Inl e
      | Inr (False, s1) \<Rightarrow> Inr (False, s1)
      | Inr (True, s1) \<Rightarrow>
          (case cso of
             None \<Rightarrow> Inr (True, s1)
           | Some cs \<Rightarrow> walk_childNodes callback p 0 cs s1))"
| "walk_childNodes callback p i [] s = Inr (True, s)"
| "walk_childNodes callback p i (childNode # rest) s =
     (case walk callback (p @ [i]) childNode s of
        Inl e \<Rightarrow> Inl e
      | Inr (False, s1) \<Rightarrow> Inr (False, s1)
      | Inr (True, s1) \<Rightarrow> walk_childNodes callback p (Suc i) rest s1)"

subsection \<open>findLinks\<close>

text \<open>
  \<open>maxFilterLevel = tags[tags.length - 1]\<close>; \<open>tags\<close> is the table of the module \<open>./tags\<close>,
  one table of elements and attributes for each filter level. It is \<open>undefined\<close> for an
  empty \<open>tags\<close>.
\<close>

definition maxFilterLevel :: "tag_table list \<Rightarrow> tag_table option" where
  "maxFilterLevel tags' = (if tags' = [] then None else Some (tags' ! (length tags' - 1)))"

text \<open>The value of \<open>url\<close> after the \<open>switch\<close> of \<open>findLinks\<close>.\<close>

datatype url_value = UrlNull | UrlString string | UrlArray "string list"

definition attr_url :: "ext \<Rightarrow> node \<Rightarrow> string \<Rightarrow> js_error + url_value" where
  "attr_url X node attrName =
     (if attrName = ''content'' then
        (if (case map_of (attrMap node) ''http-equiv'' of
               None \<Rightarrow> False
             | Some h \<Rightarrow> toLowerCase h = ''refresh'')
         then Inr (case parseMetaRefresh X (map_of (attrMap node) attrName) of
                     None \<Rightarrow> UrlNull
                   | Some u \<Rightarrow> UrlString u)
         else Inr UrlNull)
      else if attrName = ''ping'' then Inr (UrlArray (list2Array X (map_of (attrMap node) attrName)))
      else if attrName = ''srcset'' then Inr (UrlArray (parseSrcset X (map_of (attrMap node) attrName)))
      else
        (case map_of (attrMap node) attrName of
           None \<Rightarrow> Inl TypeError
         | Some v \<Rightarrow> Inr (UrlString (trim v))))"

text \<open>\<open>url.forEach(_url => callback(node, attrName, _url))\<close>\<close>

fun forEach_callback :: "(string \<Rightarrow> 's \<Rightarrow> js_error + 's) \<Rightarrow> string list \<Rightarrow> 's \<Rightarrow> js_error + 's" where
  "forEach_callback callback [] s = Inr s"
| "forEach_callback callback (u # us) s =
     (case callback u s of Inl e \<Rightarrow> Inl e | Inr s1 \<Rightarrow> forEach_callback callback us s1)"

text \<open>The calls of the callback for the value of \<open>url\<close>: none for \<open>null\<close> and \<open>undefined\<close>.\<close>

definition call_callback :: "(string \<Rightarrow> 's \<Rightarrow> js_error + 's) \<Rightarrow> url_value \<Rightarrow> 's \<Rightarrow> js_error + 's" where
  "call_callback callback url' s =
     (case url' of
        UrlArray us \<Rightarrow> forEach_callback callback us s
      | UrlString u \<Rightarrow> callback u s
      | UrlNull \<Rightarrow> Inr s)"

text \<open>The \<open>for\<close> loop over \<open>node.attrs\<close>; \<open>as\<close> are the attributes still to visit.\<close>

fun findLinks_attrs :: "ext \<Rightarrow> (string \<Rightarrow> bool) \<Rightarrow> (node \<Rightarrow> string \<Rightarrow> string \<Rightarrow> 's \<Rightarrow> js_error + 's) \<Rightarrow> node \<Rightarrow> (string \<times> string) list \<Rightarrow> 's \<Rightarrow> js_error + 's" where
  "findLinks_attrs X linkAttrs callback node [] s = Inr s"
| "findLinks_attrs X linkAttrs callback node (a # as) s =
     (let attrName = fst a in
      if linkAttrs attrName then
        (case attr_url X node attrName of
           Inl e \<Rightarrow> Inl e
         | Inr url' \<Rightarrow>
             (case call_callback (callback node attrName) url' s of
                Inl e \<Rightarrow> Inl e
              | Inr s1 \<Rightarrow> findLinks_attrs X linkAttrs callback node as s1))
      else findLinks_attrs X linkAttrs callback node as s)"

text \<open>
  What \<open>findLinks\<close> does at one node. The callback of the model also gets the path of the
  node, which stands for the parent pointers of \<open>node\<close>.
\<close>

definition findLinks_node :: "ext \<Rightarrow> tag_table option \<Rightarrow> (nat list \<Rightarrow> node \<Rightarrow> string \<Rightarrow> string \<Rightarrow> 's \<Rightarrow> js_error + 's) \<Rightarrow> nat list \<Rightarrow> node \<Rightarrow> 's \<Rightarrow> js_error + bool \<times> 's" where
  "findLinks_node X table callback p node s =
     (case table of
        None \<Rightarrow> Inl TypeError
      | Some t \<Rightarrow>
          (case t (nodeName node) of
             None \<Rightarrow> Inr (True, s)
           | Some linkAttrs \<Rightarrow>
               (case findLinks_attrs X linkAttrs (callback p) node (attrs node) s of
                  Inl e \<Rightarrow> Inl e
                | Inr s1 \<Rightarrow> Inr (True, s1))))"

definition findLinks :: "ext \<Rightarrow> tag_table list \<Rightarrow> nat list \<Rightarrow> node \<Rightarrow> (nat list \<Rightarrow> node \<Rightarrow> string \<Rightarrow> string \<Rightarrow> 's \<Rightarrow> js_error + 's) \<Rightarrow> 's \<Rightarrow> js_error + 's" where
  "findLinks X tags' p rootNode callback s =
     (case walk (findLinks_node X (maxFilterLevel tags') callback) p rootNode s of
        Inl e \<Rightarrow> Inl e
      | Inr (killed, s1) \<Rightarrow> Inr s1)"

subsection \<open>findPreliminaries and findRootNode\<close>

text \<open>
  The callback of \<open>findPreliminaries\<close>: the state is \<open>result.base\<close> and the collector
  \<open>robots\<close> (\<open>None\<close> when the caller passed none), which \<open>robots.meta\<close> feeds.
\<close>

definition findPreliminaries_node :: "ext \<Rightarrow> nat list \<Rightarrow> node \<Rightarrow> string option \<times> robot_directives option \<Rightarrow> js_error + bool \<times> (string option \<times> robot_directives option)" where
  "findPreliminaries_node X p node s =
     (let base = fst s;
          robots' = snd s;
          s1 =
            (if nodeName node = ''base'' then
               (if base = None \<and> map_of (attrMap node) ''href'' \<noteq> None
                then (Some (trim (the (map_of (attrMap node) ''href''))), robots')
                else s)
             else if nodeName node = ''meta'' then
               (if robots' \<noteq> None \<and> map_of (attrMap node) ''name'' \<noteq> None \<and>
                   map_of (attrMap node) ''content'' \<noteq> None
                then
                  let name = toLowerCase (trim (the (map_of (attrMap node) ''name''))) in
                  if name = ''robots'' \<or> isBot X name
                  then (base, Some (robots_meta (the robots') name (the (map_of (attrMap node) ''content''))))
                  else s
                else s)
             else s)
      in if fst s1 \<noteq> None \<and> snd s1 = None then Inr (False, s1) else Inr (True, s1))"

definition findPreliminaries :: "ext \<Rightarrow> nat list \<Rightarrow> node \<Rightarrow> robot_directives option \<Rightarrow> js_error + string option \<times> robot_directives option" where
  "findPreliminaries X p rootNode robots' =
     (case walk (findPreliminaries_node X) p rootNode (None, robots') of
        Inl e \<Rightarrow> Inl e
      | Inr (killed, s) \<Rightarrow> Inr s)"

text \<open>
  \<open>findRootNode(document)\<close>: the index and the node of the first child that has
  \<open>childNodes\<close>; \<open>None\<close> is the \<open>undefined\<close> of a loop that ends without a \<open>return\<close>.
\<close>

fun findRootNode_loop :: "nat \<Rightarrow> node list \<Rightarrow> (nat \<times> node) option" where
  "findRootNode_loop i [] = None"
| "findRootNode_loop i (n # ns) =
     (if childNodes n \<noteq> None then Some (i, n) else findRootNode_loop (Suc i) ns)"

definition findRootNode :: "node \<Rightarrow> js_error + (nat \<times> node) option" where
  "findRootNode document =
     (case childNodes document of
        None \<Rightarrow> Inl TypeError
      | Some rootNodes \<Rightarrow> Inr (findRootNode_loop 0 rootNodes))"

subsection \<open>getNthIndex and getSelector\<close>

text \<open>
  The loop of \<open>getNthIndex\<close> over the children of the parent, from the child it has
  reached: \<open>k\<close> is the number of children before \<open>node\<close> still to pass (\<open>child !== node\<close>
  as long as it is not 0). \<open>child.nodeName[0]\<close> is \<open>undefined\<close> for an empty name.
\<close>

fun getNthIndex_loop :: "node list \<Rightarrow> nat \<Rightarrow> nat \<Rightarrow> nat" where
  "getNthIndex_loop [] k count = count"
| "getNthIndex_loop (child # rest) k count =
     (if k \<noteq> 0 then
        (if (case nodeName child of [] \<Rightarrow> True | c # cs \<Rightarrow> c \<noteq> CHR ''#'')
         then getNthIndex_loop rest (k - 1) (count + 1)
         else getNthIndex_loop rest (k - 1) count)
      else count)"

definition getNthIndex :: "node \<Rightarrow> nat list \<Rightarrow> js_error + nat" where
  "getNthIndex document p =
     (if p = [] then Inl TypeError
      else
        (case node_at document (butlast p) of
           None \<Rightarrow> Inl TypeError
         | Some parentNode \<Rightarrow>
             (case childNodes parentNode of
                None \<Rightarrow> Inl TypeError
              | Some parentsChildren \<Rightarrow> Inr (getNthIndex_loop parentsChildren (last p) 0 + 1))))"

text \<open>
  The \<open>while\<close> loop of \<open>getSelector\<close>. The test of the \<open>if\<close> is written with \<open>&\<close> in the
  source: \<open>name!=="body" & name!=="head"\<close> is the bitwise conjunction of the two
  comparisons, a number.
\<close>

function getSelector_loop :: "node \<Rightarrow> nat list \<Rightarrow> string list \<Rightarrow> js_error + string list" where
  "getSelector_loop document p selector =
     (case node_at document p of
        None \<Rightarrow> Inl TypeError
      | Some node \<Rightarrow>
          if nodeName node = ''#document'' then Inr selector
          else
            (case
               (if nodeName node \<noteq> ''html'' \<and>
                   ((of_bool (nodeName node \<noteq> ''body'') AND of_bool (nodeName node \<noteq> ''head'')) :: int) \<noteq> 0
                then
                  (case getNthIndex document p of
                     Inl e \<Rightarrow> Inl e
                   | Inr k \<Rightarrow> Inr (nodeName node @ '':nth-child('' @ string_of_nat k @ '')''))
                else Inr (nodeName node))
             of
               Inl e \<Rightarrow> Inl e
             | Inr name \<Rightarrow>
                 if p = [] then Inl TypeError
                 else getSelector_loop document (butlast p) (selector @ [name])))"
  by pat_completeness auto
termination
  by (relation "measure (\<lambda>(document, p, selector). length p)") auto

definition getSelector :: "node \<Rightarrow> nat list \<Rightarrow> js_error + string" where
  "getSelector document p =
     (case getSelector_loop document p [] of
        Inl e \<Rightarrow> Inl e
      | Inr selector \<Rightarrow> Inr (join '' > '' (rev selector)))"

subsection \<open>getText, stringifyNode and scrapeHtml\<close>

definition getText :: "ext \<Rightarrow> node \<Rightarrow> js_error + string option" where
  "getText X node =
     (case childNodes node of
        None \<Rightarrow> Inl TypeError
      | Some cs \<Rightarrow>
          if length cs > 0 then
            (case walk (\<lambda>p n text. Inr (True, if nodeName n = ''#text'' then text @ nodeValue n else text))
                    [] node [] of
               Inl e \<Rightarrow> Inl e
             | Inr (killed, text) \<Rightarrow> Inr (Some (condenseWhitespace X text)))
          else Inr None)"

definition stringifyNode :: "node \<Rightarrow> string" where
  "stringifyNode node =
     ''<'' @ nodeName node @
     foldl (\<lambda>result attr. result @ '' '' @ fst attr @ ''='' @ [CHR 0x22] @ snd attr @ [CHR 0x22]) []
       (attrs node) @
     ''>''"

text \<open>
  The callback that \<open>scrapeHtml\<close> gives to \<open>findLinks\<close>; the state is the array \<open>links\<close>.
  \<open>Link.create\<close> and \<open>Link.resolve\<close> are not among the sources: the link is made of the
  fields the callback assigns and of what \<open>resolveUrl\<close> computes, every other field
  \<open>null\<close>. \<open>link.html.location\<close>, a source position of the parser, is left out.
\<close>

definition scrapeHtml_callback :: "ext \<Rightarrow> node \<Rightarrow> string option \<Rightarrow> url option \<Rightarrow> nat list \<Rightarrow> node \<Rightarrow> string \<Rightarrow> string \<Rightarrow> link list \<Rightarrow> js_error + link list" where
  "scrapeHtml_callback X document base pageUrl p node attrName url' links =
     (case getSelector document p of
        Inl e \<Rightarrow> Inl e
      | Inr selector \<Rightarrow>
          (case getText X node of
             Inl e \<Rightarrow> Inl e
           | Inr text' \<Rightarrow>
               let resolved = resolveUrl X url' base pageUrl in
               Inr (links @
                 [\<lparr>html =
                     \<lparr>html_attrs = Some (attrMap node), html_attrName = attrName, html_base = base,
                      html_index = int (length links), html_offsetIndex = None,
                      html_selector = selector, html_tag = stringifyNode node,
                      html_tagName = nodeName node, html_text = text'\<rparr>,
                   url_original = url', url_rebased = fst resolved,
                   internal = fst (snd resolved), samePage = snd (snd resolved),
                   excluded = None, excludedReason = None, broken = None, brokenReason = None\<rparr>])))"

text \<open>
  \<open>scrapeHtml(document, pageUrl, robots)\<close>: the links, and the collector as the scan of the
  preliminaries left it. With no root node the callback of \<open>findPreliminaries\<close> reads the
  properties of \<open>undefined\<close>.
\<close>

definition scrapeHtml :: "ext \<Rightarrow> tag_table list \<Rightarrow> node \<Rightarrow> url option \<Rightarrow> robot_directives option \<Rightarrow> js_error + link list \<times> robot_directives option" where
  "scrapeHtml X tags' document pageUrl robots' =
     (case findRootNode document of
        Inl e \<Rightarrow> Inl e
      | Inr None \<Rightarrow> Inl TypeError
      | Inr (Some (k, rootNode)) \<Rightarrow>
          (case findPreliminaries X [k] rootNode robots' of
             Inl e \<Rightarrow> Inl e
           | Inr (base, robots1) \<Rightarrow>
               (case findLinks X tags' [k] rootNode (scrapeHtml_callback X document base pageUrl) [] of
                  Inl e \<Rightarrow> Inl e
                | Inr links \<Rightarrow> Inr (links, robots1))))"

section \<open>UrlChecker and its request queue\<close>

text \<open>
  Modelled from the spec: the request queue (package \<open>limited-request-queue\<close>) is an external
  collaborator. Section 4.3: \<open>enqueue\<close> returns an id, or \<open>undefined\<close> "when the link cannot
  be scheduled"; \<open>numActive\<close> and \<open>numQueued\<close> count the items in flight and waiting. An
  accepted item is appended to the waiting items under a fresh id; a rejected one leaves
  the queue as it was. When a waiting item is started is the queue's scheduling, which
  the orchestrator does not observe but through the two counts.
\<close>

record queue_data =
  qd_auth :: "auth_info option"
  qd_link :: link

record request_queue =
  rq_active :: "(nat \<times> queue_data) list"
  rq_queued :: "(nat \<times> queue_data) list"
  rq_counter :: nat

definition new_RequestQueue :: request_queue where
  "new_RequestQueue = \<lparr>rq_active = [], rq_queued = [], rq_counter = 0\<rparr>"

definition rq_enqueue :: "ext \<Rightarrow> request_queue \<Rightarrow> url option \<Rightarrow> queue_data \<Rightarrow> nat option \<times> request_queue" where
  "rq_enqueue X q u d =
     (if schedulable X u
      then (Some (rq_counter q),
            q\<lparr>rq_queued := rq_queued q @ [(rq_counter q, d)], rq_counter := Suc (rq_counter q)\<rparr>)
      else (None, q))"

definition numActive :: "request_queue \<Rightarrow> nat" where
  "numActive q = length (rq_active q)"

definition numQueued :: "request_queue \<Rightarrow> nat" where
  "numQueued q = length (rq_queued q)"

record url_checker =
  linkQueue :: request_queue

definition new_UrlChecker :: url_checker where
  "new_UrlChecker = \<lparr>linkQueue = new_RequestQueue\<rparr>"

text \<open>
  \<open>UrlChecker.enqueue(url, customData, auth)\<close> for the internal use \<open>enqueue(Link)\<close>, the
  only one the orchestrator makes: \<open>Link.isLink(url)\<close> holds, so the link is taken as it
  is and its rebased URL is handed to the queue.
\<close>

definition enqueue :: "ext \<Rightarrow> url_checker \<Rightarrow> link \<Rightarrow> auth_info option \<Rightarrow> nat option \<times> url_checker" where
  "enqueue X uc l a =
     (case rq_enqueue X (linkQueue uc) (url_rebased l) \<lparr>qd_auth = a, qd_link = l\<rparr> of
        (r, q) \<Rightarrow> (r, uc\<lparr>linkQueue := q\<rparr>))"

definition numActiveLinks :: "url_checker \<Rightarrow> nat" where
  "numActiveLinks uc = numActive (linkQueue uc)"

definition numQueuedLinks :: "url_checker \<Rightarrow> nat" where
  "numQueuedLinks uc = numQueued (linkQueue uc)"

section \<open>HtmlChecker\<close>

text \<open>
  The notifications of an \<open>HtmlChecker\<close>. \<open>emitted\<close> is the log of what the instance has
  emitted, oldest first; a link is logged as it is at the moment of the emission.
\<close>

datatype event = EvHtml | EvLink link | EvJunk link | EvComplete

record html_checker =
  options :: options
  urlChecker :: url_checker
  active :: bool
  auth :: "auth_info option"
  baseUrl :: "url option"
  excludedLinks :: int
  linkEnqueued :: "nat option"
  parsed :: bool
  robots :: "robot_directives option"
  emitted :: "event list"

definition emit :: "event \<Rightarrow> html_checker \<Rightarrow> html_checker" where
  "emit e i = i\<lparr>emitted := emitted i @ [e]\<rparr>"

definition reset :: "html_checker \<Rightarrow> html_checker" where
  "reset i = i\<lparr>active := False, auth := None, baseUrl := None, excludedLinks := 0,
               linkEnqueued := None, parsed := False, robots := None\<rparr>"

text \<open>
  \<open>complete(instance)\<close>. \<open>emit\<close> of an event emitter calls the listeners before it
  returns; \<open>on_complete\<close> is what the listeners of "complete" do to the instance (the
  identity for listeners that only observe).
\<close>

definition complete :: "(html_checker \<Rightarrow> html_checker) \<Rightarrow> html_checker \<Rightarrow> html_checker" where
  "complete on_complete i = on_complete (emit EvComplete (reset i))"

text \<open>
  The constructor: \<open>reset(this)\<close>, the parsed options, a new \<open>UrlChecker\<close>. The listener it
  puts on the checker's "end" is \<open>urlChecker_end\<close>, the one on "link" is \<open>urlChecker_link\<close>.
\<close>

definition new_HtmlChecker :: "options \<Rightarrow> html_checker" where
  "new_HtmlChecker os =
     \<lparr>options = os, urlChecker = new_UrlChecker, active = False, auth = None, baseUrl = None,
      excludedLinks = 0, linkEnqueued = None, parsed = False, robots = None, emitted = []\<rparr>"

definition urlChecker_link :: "link \<Rightarrow> html_checker \<Rightarrow> html_checker" where
  "urlChecker_link result i = emit (EvLink result) i"

definition urlChecker_end :: "(html_checker \<Rightarrow> html_checker) \<Rightarrow> html_checker \<Rightarrow> html_checker" where
  "urlChecker_end on_complete i = (if parsed i then complete on_complete i else i)"

text \<open>
  \<open>scan(html, baseUrl, robots, auth)\<close> up to its \<open>return\<close>: the result and the instance
  after the call. \<open>robots\<close> is \<open>None\<close> when the argument is not a \<open>RobotDirectives\<close>. The
  HTML is only handed to the parser, whose promise is settled later (\<open>scan_then\<close> below).
\<close>

definition scan :: "ext \<Rightarrow> html_checker \<Rightarrow> string \<Rightarrow> string \<Rightarrow> robot_directives option \<Rightarrow> auth_info option \<Rightarrow> js_error + bool \<times> html_checker" where
  "scan X i html_text' baseUrl' robots' auth' =
     (if active i then Inr (False, i)
      else
        let r = (case robots' of Some r \<Rightarrow> r | None \<Rightarrow> new_RobotDirectives (userAgent (options i)))
        in (case transitiveAuth X baseUrl' auth' of
              Inl e \<Rightarrow> Inl e
            | Inr transitive \<Rightarrow>
                Inr (True, i\<lparr>active := True, auth := fst transitive, baseUrl := Some (snd transitive),
                            robots := Some r\<rparr>)))"

definition isRobotAttr :: "string \<Rightarrow> string \<Rightarrow> bool" where
  "isRobotAttr tagName attrName =
     ((tagName = ''img'' \<and> attrName = ''src'') \<or>
      (tagName = ''input'' \<and> attrName = ''src'') \<or>
      (tagName = ''menuitem'' \<and> attrName = ''icon'') \<or>
      (tagName = ''video'' \<and> attrName = ''poster''))"

text \<open>
  \<open>maybeExcludeLink(instance, link)\<close>: \<open>Inr None\<close> is the result \<open>false\<close>, \<open>Inr (Some r)\<close> the
  reason \<open>r\<close>. The reads that raise: \<open>opts.tags[opts.filterLevel][tagName]\<close> when the table
  has no such level, \<open>link.url.rebased.protocol\<close> when the rebased URL is \<open>null\<close>, and
  \<open>instance.robots.oneIs\<close> when \<open>instance.robots\<close> is \<open>null\<close>.
\<close>

definition maybeExcludeLink :: "ext \<Rightarrow> html_checker \<Rightarrow> link \<Rightarrow> js_error + string option" where
  "maybeExcludeLink X i l =
     (let opts = options i;
          attrName = html_attrName (html l);
          tagName = html_tagName (html l)
      in
      if length (tags opts) \<le> filterLevel opts then Inl TypeError
      else
        let tagGroup = (tags opts ! filterLevel opts) tagName in
        if (case tagGroup of None \<Rightarrow> True | Some g \<Rightarrow> \<not> g attrName) then Inr (Some ''BLC_HTML'')
        else if excludeExternalLinks opts \<and> internal l = Some False then Inr (Some ''BLC_EXTERNAL'')
        else if excludeInternalLinks opts \<and> internal l = Some True then Inr (Some ''BLC_INTERNAL'')
        else if excludeLinksToSamePage opts \<and> samePage l = Some True then Inr (Some ''BLC_SAMEPAGE'')
        else if url_rebased l = None then Inl TypeError
        else if excludedSchemes opts (protocol (the (url_rebased l))) then Inr (Some ''BLC_SCHEME'')
        else if honorRobotExclusions opts \<and> robots i = None then Inl TypeError
        else if honorRobotExclusions opts \<and> robots_oneIs X (the (robots i)) [NOFOLLOW, NOINDEX]
          then Inr (Some ''BLC_ROBOTS'')
        else if honorRobotExclusions opts \<and> robots_is X (the (robots i)) NOIMAGEINDEX \<and>
                isRobotAttr tagName attrName
          then Inr (Some ''BLC_ROBOTS'')
        else if honorRobotExclusions opts \<and>
                (case html_attrs (html l) of
                   None \<Rightarrow> False
                 | Some as \<Rightarrow>
                     (case map_of as ''rel'' of None \<Rightarrow> False | Some rel \<Rightarrow> linkTypes_nofollow X rel))
          then Inr (Some ''BLC_ROBOTS'')
        else if matchUrl X (href (the (url_rebased l))) (excludedKeywords opts)
          then Inr (Some ''BLC_KEYWORD'')
        else
          (case customFilter opts l of
             FilterObject ex reason \<Rightarrow> Inr (if ex then Some reason else None)
           | FilterValue truthy \<Rightarrow> Inr (if truthy then None else Some ''BLC_CUSTOM'')))"

text \<open>
  \<open>maybeEnqueueLink(instance, link)\<close>: the instance and the link after the call. The
  counter is read before it is incremented (\<open>excludedLinks++\<close>).
\<close>

definition maybeEnqueueLink :: "ext \<Rightarrow> html_checker \<Rightarrow> link \<Rightarrow> js_error + html_checker \<times> link" where
  "maybeEnqueueLink X i l =
     (case maybeExcludeLink X i l of
        Inl e \<Rightarrow> Inl e
      | Inr (Some excludedReason') \<Rightarrow>
          let l1 = l\<lparr>html := (html l)\<lparr>html_offsetIndex := Some (excludedLinks i)\<rparr>,
                     excluded := Some True, excludedReason := Some excludedReason'\<rparr>;
              i1 = i\<lparr>excludedLinks := excludedLinks i + 1\<rparr>
          in Inr (emit (EvJunk l1) i1, l1)
      | Inr None \<Rightarrow>
          let l1 = l\<lparr>html := (html l)\<lparr>html_offsetIndex := Some (html_index (html l) - excludedLinks i)\<rparr>,
                     excluded := Some False\<rparr>
          in (case enqueue X (urlChecker i) l1 (auth i) of
                (None, uc) \<Rightarrow>
                  let l2 = l1\<lparr>broken := Some True, brokenReason := Some ''BLC_INVALID''\<rparr>
                  in Inr (emit (EvLink l2) (i\<lparr>urlChecker := uc\<rparr>), l2)
              | (Some id', uc) \<Rightarrow> Inr (i\<lparr>urlChecker := uc\<rparr>, l1)))"

text \<open>
  \<open>links.forEach(link => maybeEnqueueLink(this, link))\<close>: the instance after the loop and
  the links as the loop left them. An exception ends the loop.
\<close>

fun forEach_maybeEnqueueLink :: "ext \<Rightarrow> html_checker \<Rightarrow> link list \<Rightarrow> js_error + html_checker \<times> link list" where
  "forEach_maybeEnqueueLink X i [] = Inr (i, [])"
| "forEach_maybeEnqueueLink X i (l # ls) =
     (case maybeEnqueueLink X i l of
        Inl e \<Rightarrow> Inl e
      | Inr (i1, l1) \<Rightarrow>
          (case forEach_maybeEnqueueLink X i1 ls of
             Inl e \<Rightarrow> Inl e
           | Inr (i2, ls2) \<Rightarrow> Inr (i2, l1 # ls2)))"

text \<open>
  The second \<open>then\<close> of \<open>scan\<close>, run when the document is parsed and scraped: \<open>links\<close> are
  the links of \<open>scrapeHtml\<close>. \<open>scan_finish\<close> is its end, from \<open>this.parsed = true\<close> on.
\<close>

definition scan_finish :: "(html_checker \<Rightarrow> html_checker) \<Rightarrow> html_checker \<Rightarrow> html_checker" where
  "scan_finish on_complete i =
     (let i1 = i\<lparr>parsed := True\<rparr> in
      if numActiveLinks (urlChecker i1) = 0 \<and> numQueuedLinks (urlChecker i1) = 0
      then complete on_complete i1
      else i1)"

definition scan_then :: "ext \<Rightarrow> (html_checker \<Rightarrow> html_checker) \<Rightarrow> html_checker \<Rightarrow> link list \<Rightarrow> js_error + html_checker \<times> link list" where
  "scan_then X on_complete i links =
     (case forEach_maybeEnqueueLink X (emit EvHtml i) links of
        Inl e \<Rightarrow> Inl e
      | Inr (i1, links1) \<Rightarrow> Inr (scan_finish on_complete i1, links1))"

text \<open>
  The two \<open>then\<close> of \<open>scan\<close> together, run when the parser has settled its promise with
  \<open>document\<close>; \<open>tags'\<close> is the table of the module \<open>./tags\<close> that the scraper reads. The
  collector that \<open>scrapeHtml\<close> feeds is the object \<open>this.robots\<close>.
\<close>

definition scan_parsed :: "ext \<Rightarrow> tag_table list \<Rightarrow> (html_checker \<Rightarrow> html_checker) \<Rightarrow> html_checker \<Rightarrow> node \<Rightarrow> js_error + html_checker \<times> link list" where
  "scan_parsed X tags' on_complete i document =
     (case scrapeHtml X tags' document (baseUrl i) (robots i) of
        Inl e \<Rightarrow> Inl e
      | Inr (links, robots1) \<Rightarrow> scan_then X on_complete (i\<lparr>robots := robots1\<rparr>) links)"

section \<open>The statements of the specification\<close>

subsection \<open>The filter chain\<close>

text \<open>
  The ten exclusion rules as section 4.4 of the specification lists them, each with the
  test that the specification words and the reason it reports.
  \<^enum> tag/attribute not in the configured filter-level table,
  \<^enum> external links excluded and the link is external,
  \<^enum> internal links excluded and the link is internal,
  \<^enum> same-page links excluded and the link is same-page,
  \<^enum> the scheme of the link is in the excluded-scheme set,
  \<^enum> robots honoring enabled and the directives say blanket no-follow or no-index,
  \<^enum> robots honoring enabled, no-image-index, and the location is image-like,
  \<^enum> robots honoring enabled and the \<open>rel\<close> of the element carries no-follow,
  \<^enum> the rebased URL matches the keyword blacklist,
  \<^enum> the filter of the caller returns false, or an object that marks the link excluded.
\<close>

definition rule_html :: "ext \<Rightarrow> html_checker \<Rightarrow> link \<Rightarrow> bool" where
  "rule_html X i l =
     (case (tags (options i) ! filterLevel (options i)) (html_tagName (html l)) of
        None \<Rightarrow> True
      | Some attrs' \<Rightarrow> \<not> attrs' (html_attrName (html l)))"

definition rule_external :: "ext \<Rightarrow> html_checker \<Rightarrow> link \<Rightarrow> bool" where
  "rule_external X i l = (excludeExternalLinks (options i) \<and> internal l = Some False)"

definition rule_internal :: "ext \<Rightarrow> html_checker \<Rightarrow> link \<Rightarrow> bool" where
  "rule_internal X i l = (excludeInternalLinks (options i) \<and> internal l = Some True)"

definition rule_samepage :: "ext \<Rightarrow> html_checker \<Rightarrow> link \<Rightarrow> bool" where
  "rule_samepage X i l = (excludeLinksToSamePage (options i) \<and> samePage l = Some True)"

definition rule_scheme :: "ext \<Rightarrow> html_checker \<Rightarrow> link \<Rightarrow> bool" where
  "rule_scheme X i l =
     (case url_rebased l of None \<Rightarrow> False | Some u \<Rightarrow> excludedSchemes (options i) (protocol u))"

definition rule_robots_blanket :: "ext \<Rightarrow> html_checker \<Rightarrow> link \<Rightarrow> bool" where
  "rule_robots_blanket X i l =
     (honorRobotExclusions (options i) \<and>
      (case robots i of None \<Rightarrow> False | Some r \<Rightarrow> robots_is X r NOFOLLOW \<or> robots_is X r NOINDEX))"

definition rule_robots_image :: "ext \<Rightarrow> html_checker \<Rightarrow> link \<Rightarrow> bool" where
  "rule_robots_image X i l =
     (honorRobotExclusions (options i) \<and>
      (case robots i of None \<Rightarrow> False | Some r \<Rightarrow> robots_is X r NOIMAGEINDEX) \<and>
      isRobotAttr (html_tagName (html l)) (html_attrName (html l)))"

definition rule_robots_rel :: "ext \<Rightarrow> html_checker \<Rightarrow> link \<Rightarrow> bool" where
  "rule_robots_rel X i l =
     (honorRobotExclusions (options i) \<and>
      (case html_attrs (html l) of
         None \<Rightarrow> False
       | Some as \<Rightarrow> (case map_of as ''rel'' of None \<Rightarrow> False | Some rel \<Rightarrow> linkTypes_nofollow X rel)))"

definition rule_keyword :: "ext \<Rightarrow> html_checker \<Rightarrow> link \<Rightarrow> bool" where
  "rule_keyword X i l =
     (case url_rebased l of
        None \<Rightarrow> False
      | Some u \<Rightarrow> matchUrl X (href u) (excludedKeywords (options i)))"

definition rule_custom :: "ext \<Rightarrow> html_checker \<Rightarrow> link \<Rightarrow> bool" where
  "rule_custom X i l =
     (case customFilter (options i) l of FilterObject ex reason \<Rightarrow> ex | FilterValue v \<Rightarrow> \<not> v)"

definition custom_reason :: "html_checker \<Rightarrow> link \<Rightarrow> string" where
  "custom_reason i l =
     (case customFilter (options i) l of
        FilterObject ex reason \<Rightarrow> reason
      | FilterValue v \<Rightarrow> ''BLC_CUSTOM'')"

type_synonym rule = "(ext \<Rightarrow> html_checker \<Rightarrow> link \<Rightarrow> bool) \<times> (html_checker \<Rightarrow> link \<Rightarrow> string)"



subsection \<open>Included and excluded links\<close>

definition included :: "link \<Rightarrow> bool" where
  "included l = (excluded l = Some False)"

definition junk :: "link \<Rightarrow> bool" where
  "junk l = (excluded l = Some True)"

subsection \<open>The order of "complete" and the reset\<close>

text \<open>
  The order that the specification words for the state \<open>Complete\<close>: emit "complete", then
  reset the fields of the scan and return to \<open>Idle\<close>.
\<close>

definition complete_emit_first :: "(html_checker \<Rightarrow> html_checker) \<Rightarrow> html_checker \<Rightarrow> html_checker" where
  "complete_emit_first on_complete i = reset (on_complete (emit EvComplete i))"

subsection \<open>Document order and the base of a document\<close>

text \<open>The nodes of a tree in document order.\<close>

fun preorder :: "node \<Rightarrow> node list" where
  "preorder (Node n a m v cso) =
     Node n a m v cso # (case cso of None \<Rightarrow> [] | Some cs \<Rightarrow> concat (map preorder cs))"

text \<open>
  The trimmed \<open>href\<close> of the first \<open>base\<close> element, of a list of nodes, that has an \<open>href\<close>
  attribute.
\<close>

definition has_href_base :: "node \<Rightarrow> bool" where
  "has_href_base n = (nodeName n = ''base'' \<and> map_of (attrMap n) ''href'' \<noteq> None)"

definition first_base :: "node list \<Rightarrow> string option" where
  "first_base ns =
     (case filter has_href_base ns of
        [] \<Rightarrow> None
      | n # rest \<Rightarrow> Some (trim (the (map_of (attrMap n) ''href''))))"

definition acc_base :: "string option \<Rightarrow> node list \<Rightarrow> string option" where
  "acc_base b ns = (case b of Some x \<Rightarrow> Some x | None \<Rightarrow> first_base ns)"

text \<open>
  The base as the specification words it: the \<open>href\<close> of the first \<open>base\<close> element that
  has a non-empty \<open>href\<close> attribute.
\<close>

definition first_nonempty_base :: "node list \<Rightarrow> string option" where
  "first_nonempty_base ns =
     (case filter (\<lambda>n. nodeName n = ''base'' \<and>
                       (case map_of (attrMap n) ''href'' of None \<Rightarrow> False | Some h \<Rightarrow> h \<noteq> [])) ns of
        [] \<Rightarrow> None
      | n # rest \<Rightarrow> map_of (attrMap n) ''href'')"

subsection \<open>The links of the scraper\<close>

text \<open>
  A link comes from a table when the table has the element of the link, with the attribute
  of the link among its attributes. \<open>scraped t links\<close>: every link comes from \<open>t\<close>, and
  the indices are \<open>0..N-1\<close> in the order of the list.
\<close>

definition from_table :: "tag_table \<Rightarrow> link \<Rightarrow> bool" where
  "from_table t l =
     (case t (html_tagName (html l)) of
        None \<Rightarrow> False
      | Some linkAttrs \<Rightarrow> linkAttrs (html_attrName (html l)))"

definition scraped :: "tag_table \<Rightarrow> link list \<Rightarrow> bool" where
  "scraped t links =
     ((\<forall>l \<in> set links. from_table t l) \<and>
      (\<forall>k<length links. html_index (html (links ! k)) = int k))"

subsection \<open>The selector of an element\<close>

text \<open>
  The parser names the nodes that are not elements \<open>#text\<close>, \<open>#comment\<close>,
  \<open>#documentType\<close>: an element is a node whose name does not start with \<open>#\<close>.
\<close>

definition element_node :: "node \<Rightarrow> bool" where
  "element_node n = (case nodeName n of [] \<Rightarrow> True | c # cs \<Rightarrow> c \<noteq> CHR ''#'')"

text \<open>The children of the parent of the node at the path \<open>q\<close>.\<close>

definition siblings :: "node \<Rightarrow> nat list \<Rightarrow> node list" where
  "siblings document q =
     (case node_at document (butlast q) of
        None \<Rightarrow> []
      | Some parent \<Rightarrow> (case childNodes parent of None \<Rightarrow> [] | Some cs \<Rightarrow> cs))"

text \<open>
  The segment of the node at the path \<open>q\<close>: its name, and for a name other than \<open>html\<close>,
  \<open>head\<close> and \<open>body\<close> the suffix \<open>:nth-child(k)\<close>, \<open>k\<close> one plus the number of elements
  among the siblings before the node.
\<close>

definition selector_segment :: "node \<Rightarrow> nat list \<Rightarrow> string" where
  "selector_segment document q =
     (case node_at document q of
        None \<Rightarrow> []
      | Some n \<Rightarrow>
          if nodeName n \<in> {''html'', ''head'', ''body''} then nodeName n
          else nodeName n @ '':nth-child('' @
               string_of_nat (1 + length (filter element_node (take (last q) (siblings document q)))) @
               '')'')"

text \<open>
  The paths of the nodes from the child of the document down to the node at \<open>p\<close>, top
  down.
\<close>

definition ancestor_paths :: "nat list \<Rightarrow> nat list list" where
  "ancestor_paths p = map (\<lambda>k. take k p) [1..<Suc (length p)]"

subsection \<open>The states of a scan\<close>

text \<open>
  An instance over time. Between the calls of its methods and of its listeners an
  instance is in one of these phases of the pass over the document: no pass is under way
  (\<open>NoPass\<close>: idle, draining, or left by an exception), \<open>scan\<close> has accepted a document
  whose promise is not settled (\<open>Parsing\<close>), or the loop over the links has the links
  \<open>ls\<close> still to filter (\<open>Filtering ls\<close>). \<open>finished\<close> counts the passes that have reached
  their end, \<open>scan_finish\<close>.

  The steps: the constructor; a call of \<open>scan\<close>; the first \<open>then\<close> and the emission of
  "html"; one turn of the loop; the end of the pass; an exception in the pass (with the
  collector as the scraper left it); an "end" and a "link" of the checker; any change of
  the checker and its queue. The steps of the queue may come between any two others,
  also between two turns of the loop, which is more than JavaScript allows.
\<close>

datatype phase = NoPass | Parsing | Filtering "link list"

record sys =
  inst :: html_checker
  phase :: phase
  finished :: nat

inductive reachable :: "ext \<Rightarrow> tag_table list \<Rightarrow> sys \<Rightarrow> bool"
  for X :: ext and tags' :: "tag_table list" where
  r_new: "reachable X tags' \<lparr>inst = new_HtmlChecker os, phase = NoPass, finished = 0\<rparr>"
| r_scan: "reachable X tags' s \<Longrightarrow> scan X (inst s) html' baseUrl' robots' auth' = Inr (ok, i') \<Longrightarrow>
     reachable X tags' (s\<lparr>inst := i', phase := (if ok then Parsing else phase s)\<rparr>)"
| r_html: "reachable X tags' s \<Longrightarrow> phase s = Parsing \<Longrightarrow>
     scrapeHtml X tags' document (baseUrl (inst s)) (robots (inst s)) = Inr (links, robots1) \<Longrightarrow>
     reachable X tags' (s\<lparr>inst := emit EvHtml ((inst s)\<lparr>robots := robots1\<rparr>), phase := Filtering links\<rparr>)"
| r_filter: "reachable X tags' s \<Longrightarrow> phase s = Filtering (l # ls) \<Longrightarrow>
     maybeEnqueueLink X (inst s) l = Inr (i', l') \<Longrightarrow>
     reachable X tags' (s\<lparr>inst := i', phase := Filtering ls\<rparr>)"
| r_finish: "reachable X tags' s \<Longrightarrow> phase s = Filtering [] \<Longrightarrow>
     reachable X tags'
       (s\<lparr>inst := scan_finish (\<lambda>j. j) (inst s), phase := NoPass, finished := Suc (finished s)\<rparr>)"
| r_raise: "reachable X tags' s \<Longrightarrow> phase s \<noteq> NoPass \<Longrightarrow>
     reachable X tags' (s\<lparr>inst := (inst s)\<lparr>robots := robots1\<rparr>, phase := NoPass\<rparr>)"
| r_end: "reachable X tags' s \<Longrightarrow>
     reachable X tags' (s\<lparr>inst := urlChecker_end (\<lambda>j. j) (inst s)\<rparr>)"
| r_link: "reachable X tags' s \<Longrightarrow>
     reachable X tags' (s\<lparr>inst := urlChecker_link result (inst s)\<rparr>)"
| r_queue: "reachable X tags' s \<Longrightarrow>
     reachable X tags' (s\<lparr>inst := (inst s)\<lparr>urlChecker := uc\<rparr>\<rparr>)"

text \<open>The number of "complete" that an instance has emitted.\<close>

fun is_complete :: "event \<Rightarrow> bool" where
  "is_complete EvComplete = True"
| "is_complete e = False"

definition count_complete :: "html_checker \<Rightarrow> nat" where
  "count_complete i = length (filter is_complete (emitted i))"

definition scan_invariant :: "sys \<Rightarrow> bool" where
  "scan_invariant s =
     ((phase s \<noteq> NoPass \<longrightarrow> active (inst s) \<and> \<not> parsed (inst s)) \<and>
      (parsed (inst s) \<longrightarrow> active (inst s) \<and> count_complete (inst s) + 1 = finished s) \<and>
      (\<not> parsed (inst s) \<longrightarrow> count_complete (inst s) = finished s))"

section \<open>Example data\<close>

text \<open>
  A table of two filter levels: level 0 knows the \<open>href\<close> of \<open>a\<close>, level 1 also the \<open>src\<close>
  of \<open>img\<close>.
\<close>

definition ex_tags :: "tag_table list" where
  "ex_tags =
     [Map.empty(''a'' \<mapsto> (\<lambda>attrName. attrName = ''href'')),
      Map.empty(''a'' \<mapsto> (\<lambda>attrName. attrName = ''href''),
                ''img'' \<mapsto> (\<lambda>attrName. attrName = ''src''))]"

text \<open>Collaborators; the queue of the example schedules the URLs of HTTP only.\<close>

definition ex_ext :: ext where
  "ex_ext =
     \<lparr>parseMetaRefresh = (\<lambda>s. None), list2Array = (\<lambda>s. []), parseSrcset = (\<lambda>s. []),
      isBot = (\<lambda>name. False), robots_is = (\<lambda>r d. False),
      linkTypes_nofollow = (\<lambda>rel. rel = ''nofollow''),
      matchUrl = (\<lambda>h keywords. h \<in> set keywords),
      transitiveAuth = (\<lambda>u a. Inr (a, \<lparr>protocol = ''http:'', href = u\<rparr>)),
      schedulable = (\<lambda>u. case u of None \<Rightarrow> False | Some v \<Rightarrow> protocol v \<in> {''http:'', ''https:''}),
      condenseWhitespace = (\<lambda>s. s),
      resolveUrl = (\<lambda>u base pageUrl. (Some \<lparr>protocol = ''http:'', href = u\<rparr>, Some True, Some False))\<rparr>"

definition ex_options :: options where
  "ex_options =
     \<lparr>tags = ex_tags, filterLevel = 0, excludeExternalLinks = True, excludeInternalLinks = False,
      excludeLinksToSamePage = False, excludedSchemes = (\<lambda>scheme. scheme = ''data:''),
      excludedKeywords = [''data:,x''], honorRobotExclusions = False,
      customFilter = (\<lambda>l. FilterValue True), userAgent = ''ua''\<rparr>"

definition ex_idle :: html_checker where
  "ex_idle = new_HtmlChecker ex_options"

text \<open>The instance after a scan that it accepted.\<close>

definition after_scan :: "js_error + bool \<times> html_checker \<Rightarrow> html_checker \<Rightarrow> html_checker" where
  "after_scan result i = (case result of Inl e \<Rightarrow> i | Inr (ok, i') \<Rightarrow> i')"

definition ex_active :: html_checker where
  "ex_active = after_scan (scan ex_ext ex_idle ''<html></html>'' ''http://blc/'' None None) ex_idle"

text \<open>A link of \<open><a href>\<close> to the URL \<open>u\<close>, with the classification \<open>int\<close> and the index \<open>k\<close>.\<close>

definition ex_link :: "url \<Rightarrow> bool \<Rightarrow> int \<Rightarrow> link" where
  "ex_link u int' k =
     \<lparr>html =
        \<lparr>html_attrs = Some [(''href'', href u)], html_attrName = ''href'', html_base = None,
         html_index = k, html_offsetIndex = None, html_selector = ''html > body > a:nth-child(1)'',
         html_tag = ''<a>'', html_tagName = ''a'', html_text = None\<rparr>,
      url_original = href u, url_rebased = Some u, internal = Some int', samePage = Some False,
      excluded = None, excludedReason = None, broken = None, brokenReason = None\<rparr>"

text \<open>An element with its attributes (\<open>attrMap\<close> holds the attributes of \<open>attrs\<close>).\<close>

definition element :: "string \<Rightarrow> (string \<times> string) list \<Rightarrow> node list \<Rightarrow> node" where
  "element name as cs = Node name as as [] (Some cs)"

text \<open>\<open><html><head><base href=""><base href="/x/"></head><body></body></html>\<close>\<close>

definition ex_root_bases :: node where
  "ex_root_bases =
     element ''html'' []
       [element ''head'' [] [element ''base'' [(''href'', '''')] [], element ''base'' [(''href'', ''/x/'')] []],
        element ''body'' [] []]"

text \<open>\<open><html><body><img src="x.png"></body></html>\<close>\<close>

definition ex_document_img :: node where
  "ex_document_img =
     Node ''#document'' [] [] [] (Some
       [element ''html'' [] [element ''body'' [] [element ''img'' [(''src'', ''x.png'')] []]]])"

text \<open>\<open><html><body><a href="  "></a></body></html>\<close>\<close>

definition ex_document_blank :: node where
  "ex_document_blank =
     Node ''#document'' [] [] [] (Some
       [element ''html'' [] [element ''body'' [] [element ''a'' [(''href'', ''  '')] []]]])"

text \<open>
  \<open><!DOCTYPE html><html><head></head><body>text<p></p><!--c--><a href="http://blc/y"></a></body></html>\<close>
\<close>

definition ex_document_mixed :: node where
  "ex_document_mixed =
     Node ''#document'' [] [] [] (Some
       [Node ''#documentType'' [] [] [] None,
        element ''html'' []
          [element ''head'' [] [],
           element ''body'' []
             [Node ''#text'' [] [] ''text'' None,
              element ''p'' [] [],
              Node ''#comment'' [] [] [] None,
              element ''a'' [(''href'', ''http://blc/y'')] []]]])"

text \<open>Three links with the indices 0, 1, 2: internal, external, internal.\<close>

definition ex_three_links :: "link list" where
  "ex_three_links =
     [ex_link \<lparr>protocol = ''http:'', href = ''http://blc/a''\<rparr> True 0,
      ex_link \<lparr>protocol = ''http:'', href = ''http://other/b''\<rparr> False 1,
      ex_link \<lparr>protocol = ''http:'', href = ''http://blc/c''\<rparr> True 2]"


text \<open>
  Collaborators as those of \<open>ex_ext\<close>, but for two: the resolution fails on the string
  \<open>http://[\<close> (a host that is not closed), which leaves the link without rebased URL and
  without classification, and the queue schedules every URL and rejects a link that has
  none.
\<close>

definition ex_ext_strict :: ext where
  "ex_ext_strict =
     ex_ext
       \<lparr>schedulable := (\<lambda>u. u \<noteq> None),
        resolveUrl := (\<lambda>u base pageUrl.
          if u = ''http://['' then (None, None, None)
          else (Some \<lparr>protocol = ''http:'', href = u\<rparr>, Some True, Some False))\<rparr>"

text \<open>
  \<open><html><body><a href="http://blc/a"></a><a href="http://["></a><a href="http://blc/c"></a></body></html>\<close>
\<close>

definition ex_document_invalid :: node where
  "ex_document_invalid =
     Node ''#document'' [] [] [] (Some
       [element ''html'' []
          [element ''body'' []
             [element ''a'' [(''href'', ''http://blc/a'')] [],
              element ''a'' [(''href'', ''http://['')] [],
              element ''a'' [(''href'', ''http://blc/c'')] []]]])"

text \<open>The second link of that document, as \<open>scrapeHtml\<close> makes it.\<close>

definition ex_invalid_link :: link where
  "ex_invalid_link =
     \<lparr>html =
        \<lparr>html_attrs = Some [(''href'', ''http://['')], html_attrName = ''href'', html_base = None,
         html_index = 1, html_offsetIndex = None,
         html_selector = ''html > body > a:nth-child(2)'',
         html_tag = stringifyNode (element ''a'' [(''href'', ''http://['')] []),
         html_tagName = ''a'', html_text = None\<rparr>,
      url_original = ''http://['', url_rebased = None, internal = None, samePage = None,
      excluded = None, excludedReason = None, broken = None, brokenReason = None\<rparr>"
section \<open>The filter chain of the orchestrator\<close>



text \<open>
  \<open>maybeExcludeLink\<close> in terms of the rules: the tests of the source are the tests of
  the rules, in their order, and the three reads that raise.
\<close>

lemma maybeExcludeLink_rules:
  "maybeExcludeLink X i l =
     (if length (tags (options i)) \<le> filterLevel (options i) then Inl TypeError
      else if rule_html X i l then Inr (Some ''BLC_HTML'')
      else if rule_external X i l then Inr (Some ''BLC_EXTERNAL'')
      else if rule_internal X i l then Inr (Some ''BLC_INTERNAL'')
      else if rule_samepage X i l then Inr (Some ''BLC_SAMEPAGE'')
      else if url_rebased l = None then Inl TypeError
      else if rule_scheme X i l then Inr (Some ''BLC_SCHEME'')
      else if honorRobotExclusions (options i) \<and> robots i = None then Inl TypeError
      else if rule_robots_blanket X i l then Inr (Some ''BLC_ROBOTS'')
      else if rule_robots_image X i l then Inr (Some ''BLC_ROBOTS'')
      else if rule_robots_rel X i l then Inr (Some ''BLC_ROBOTS'')
      else if rule_keyword X i l then Inr (Some ''BLC_KEYWORD'')
      else if rule_custom X i l then Inr (Some (custom_reason i l))
      else Inr None)"
proof -
  have g1: "(case (tags (options i) ! filterLevel (options i)) (html_tagName (html l)) of
               None \<Rightarrow> True | Some g \<Rightarrow> \<not> g (html_attrName (html l))) = rule_html X i l"
    by (simp add: rule_html_def)
  have g2: "(excludeExternalLinks (options i) \<and> internal l = Some False) = rule_external X i l"
    by (simp add: rule_external_def)
  have g3: "(excludeInternalLinks (options i) \<and> internal l = Some True) = rule_internal X i l"
    by (simp add: rule_internal_def)
  have g4: "(excludeLinksToSamePage (options i) \<and> samePage l = Some True) = rule_samepage X i l"
    by (simp add: rule_samepage_def)
  have g8: "(honorRobotExclusions (options i) \<and>
               (case html_attrs (html l) of
                  None \<Rightarrow> False
                | Some as \<Rightarrow>
                    (case map_of as ''rel'' of None \<Rightarrow> False | Some rel \<Rightarrow> linkTypes_nofollow X rel)))
              = rule_robots_rel X i l"
    by (simp add: rule_robots_rel_def)
  have g10: "(case customFilter (options i) l of
                FilterObject ex reason \<Rightarrow> Inr (if ex then Some reason else None)
              | FilterValue truthy \<Rightarrow> Inr (if truthy then None else Some ''BLC_CUSTOM''))
             = (if rule_custom X i l then Inr (Some (custom_reason i l))
                else (Inr None :: js_error + string option))"
    by (cases "customFilter (options i) l") (simp_all add: rule_custom_def custom_reason_def)
  show ?thesis
  proof (cases "url_rebased l")
    case None
    show ?thesis
      unfolding maybeExcludeLink_def Let_def g1 g2 g3 g4
      by (simp add: None)
  next
    case (Some u)
    have g5: "excludedSchemes (options i) (protocol (the (url_rebased l))) = rule_scheme X i l"
      by (simp add: rule_scheme_def Some)
    have g9: "matchUrl X (href (the (url_rebased l))) (excludedKeywords (options i)) = rule_keyword X i l"
      by (simp add: rule_keyword_def Some)
    show ?thesis
    proof (cases "honorRobotExclusions (options i) \<and> robots i = None")
      case True
      show ?thesis
        unfolding maybeExcludeLink_def Let_def g1 g2 g3 g4 g5
        by (simp add: True Some)
    next
      case False
      have g6: "(honorRobotExclusions (options i) \<and> robots_oneIs X (the (robots i)) [NOFOLLOW, NOINDEX])
              = rule_robots_blanket X i l"
        using False by (auto simp: rule_robots_blanket_def robots_oneIs_def)
      have g7: "(honorRobotExclusions (options i) \<and> robots_is X (the (robots i)) NOIMAGEINDEX \<and>
               isRobotAttr (html_tagName (html l)) (html_attrName (html l)))
              = rule_robots_image X i l"
        using False by (auto simp: rule_robots_image_def)
      have F: "(honorRobotExclusions (options i) \<and> robots i = None) = False" using False by simp
      show ?thesis
        unfolding maybeExcludeLink_def Let_def g1 g2 g3 g4 g5 g6 g7 g8 g9 g10 F
        by (simp add: Some)
    qed
  qed
qed




section \<open>scan and complete\<close>

text \<open>
  C7. A call of \<open>scan\<close> on an instance that is not idle (\<open>active\<close> is set) returns \<open>false\<close>
  and leaves the instance as it is: no field is modified and nothing is emitted. A call
  on an idle instance returns \<open>true\<close> (when \<open>transitiveAuth\<close> returns), and the instance
  is active after it.
\<close>

theorem scan_rejected_while_active:
  "(active i \<longrightarrow> scan X i html' baseUrl' robots' auth' = Inr (False, i)) \<and>
   (\<not> active i \<and> transitiveAuth X baseUrl' auth' = Inr t \<longrightarrow>
      (\<exists>i'. scan X i html' baseUrl' robots' auth' = Inr (True, i') \<and> active i' \<and>
            emitted i' = emitted i))"
  by (simp add: scan_def Let_def)

theorem scan_rejected_while_active_witness:
  "active ex_active \<and> \<not> active ex_idle \<and>
   scan ex_ext ex_active ''<p></p>'' ''http://blc/2'' None None = Inr (False, ex_active) \<and>
   transitiveAuth ex_ext ''http://blc/2'' None = Inr (None, \<lparr>protocol = ''http:'', href = ''http://blc/2''\<rparr>) \<and>
   (\<exists>i'. scan ex_ext ex_idle ''<p></p>'' ''http://blc/2'' None None = Inr (True, i'))"
  using scan_rejected_while_active[of ex_active ex_ext "''<p></p>''" "''http://blc/2''" None None]
    scan_rejected_while_active[of ex_idle ex_ext "''<p></p>''" "''http://blc/2''" None None
      "(None, \<lparr>protocol = ''http:'', href = ''http://blc/2''\<rparr>)"]
  by (simp add: ex_active_def after_scan_def ex_idle_def new_HtmlChecker_def scan_def Let_def ex_ext_def)

text \<open>
  C8, as the specification words it, fails: \<open>complete\<close> does not emit "complete" and then
  reset. With a listener of "complete" that starts the next scan, the instance is
  scanning after \<open>complete\<close>; in the order of the specification the listener would run on
  an instance still active, the scan would be rejected and the instance end up idle.
\<close>

theorem complete_order_counterexample:
  "active (complete (\<lambda>j. after_scan (scan ex_ext j ''<p></p>'' ''http://blc/2'' None None) j)
             ex_active) \<and>
   \<not> active (complete_emit_first
               (\<lambda>j. after_scan (scan ex_ext j ''<p></p>'' ''http://blc/2'' None None) j) ex_active)"
  by (simp add: complete_def complete_emit_first_def emit_def reset_def scan_def Let_def
      after_scan_def ex_active_def ex_idle_def new_HtmlChecker_def ex_ext_def)

text \<open>
  C8, amended. \<open>complete\<close> first resets the fields of the scan (auth, page URL, robots,
  exclusion counter, parsed flag), which returns the instance to idle, and then emits
  "complete", once: the listeners run on the instance \<open>j\<close>, idle and reset, whose log is
  that of \<open>i\<close> and one "complete". A later "end" of the queue is ignored on \<open>j\<close>.
\<close>

theorem complete_resets_then_emits:
  "\<exists>j. complete on_complete i = on_complete j \<and>
       \<not> active j \<and> auth j = None \<and> baseUrl j = None \<and> robots j = None \<and>
       excludedLinks j = 0 \<and> \<not> parsed j \<and> linkEnqueued j = None \<and>
       options j = options i \<and> urlChecker j = urlChecker i \<and>
       emitted j = emitted i @ [EvComplete] \<and> urlChecker_end on_next j = j"
  by (rule exI[of _ "emit EvComplete (reset i)"])
     (simp add: complete_def emit_def reset_def urlChecker_end_def)

section \<open>The offset indices\<close>

lemma maybeEnqueueLink_cases:
  assumes "maybeEnqueueLink X i l = Inr (i1, l1)"
  shows "(excluded l1 = Some True \<and> html_offsetIndex (html l1) = Some (excludedLinks i) \<and>
          excludedLinks i1 = excludedLinks i + 1) \<or>
         (excluded l1 = Some False \<and>
          html_offsetIndex (html l1) = Some (html_index (html l) - excludedLinks i) \<and>
          excludedLinks i1 = excludedLinks i)"
proof (cases "maybeExcludeLink X i l")
  case (Inl e)
  with assms show ?thesis by (simp add: maybeEnqueueLink_def)
next
  case (Inr res)
  show ?thesis
  proof (cases res)
    case None
    obtain r uc where e: "enqueue X (urlChecker i)
        (l\<lparr>html := (html l)\<lparr>html_offsetIndex := Some (html_index (html l) - excludedLinks i)\<rparr>,
           excluded := Some False\<rparr>) (auth i) = (r, uc)"
      by (cases "enqueue X (urlChecker i)
        (l\<lparr>html := (html l)\<lparr>html_offsetIndex := Some (html_index (html l) - excludedLinks i)\<rparr>,
           excluded := Some False\<rparr>) (auth i)") auto
    from assms Inr None e show ?thesis
      by (cases r) (auto simp: maybeEnqueueLink_def Let_def emit_def)
  next
    case (Some reason)
    with assms Inr show ?thesis
      by (auto simp: maybeEnqueueLink_def Let_def emit_def)
  qed
qed

text \<open>
  The loop over links whose indices count up from \<open>n\<close>: the included links get the
  offsets from \<open>n - excludedLinks i\<close> up, the excluded ones from \<open>excludedLinks i\<close> up.
\<close>

lemma forEach_offsets:
  assumes "forEach_maybeEnqueueLink X i links = Inr (i', links')"
    and "\<forall>k<length links. html_index (html (links ! k)) = n + int k"
  shows "length links' = length links \<and>
         map (\<lambda>l. html_offsetIndex (html l)) (filter included links') =
           map (\<lambda>j. Some (n - excludedLinks i + int j)) [0..<length (filter included links')] \<and>
         map (\<lambda>l. html_offsetIndex (html l)) (filter junk links') =
           map (\<lambda>j. Some (excludedLinks i + int j)) [0..<length (filter junk links')] \<and>
         excludedLinks i' = excludedLinks i + int (length (filter junk links')) \<and>
         (\<forall>l \<in> set links'. included l \<or> junk l)"
  using assms
proof (induction links arbitrary: i n links')
  case Nil
  then show ?case by simp
next
  case (Cons l ls)
  from Cons.prems(1) obtain i1 l1 where s1: "maybeEnqueueLink X i l = Inr (i1, l1)"
    by (auto split: sum.splits)
  with Cons.prems(1) obtain ls2 where s2: "forEach_maybeEnqueueLink X i1 ls = Inr (i', ls2)"
    and l': "links' = l1 # ls2"
    by (auto split: sum.splits)
  from Cons.prems(2) have "html_index (html ((l # ls) ! 0)) = n + int 0" by blast
  then have ix0: "html_index (html l) = n" by simp
  from Cons.prems(2) have ixs: "\<forall>k<length ls. html_index (html (ls ! k)) = (n + 1) + int k"
    by fastforce
  note IH = Cons.IH[OF s2 ixs]
  have shift: "\<And>c m. map (\<lambda>j. Some (c + int j)) [0..<Suc m] =
      Some c # map (\<lambda>j. Some (c + 1 + int j)) [0..<m]"
    by (simp add: upt_rec[of 0] map_Suc_upt[symmetric] del: upt_Suc)
  from maybeEnqueueLink_cases[OF s1] show ?case
  proof
    assume a: "excluded l1 = Some True \<and> html_offsetIndex (html l1) = Some (excludedLinks i) \<and>
          excludedLinks i1 = excludedLinks i + 1"
    then have j: "junk l1" "\<not> included l1" by (simp_all add: junk_def included_def)
    from IH a j l' show ?thesis
      by (simp add: shift del: upt_Suc)
  next
    assume a: "excluded l1 = Some False \<and>
          html_offsetIndex (html l1) = Some (html_index (html l) - excludedLinks i) \<and>
          excludedLinks i1 = excludedLinks i"
    then have j: "\<not> junk l1" "included l1" by (simp_all add: junk_def included_def)
    from IH a j l' ix0 show ?thesis
      by (simp add: shift del: upt_Suc)
  qed
qed

lemma nth_filter_count:
  assumes "map f (filter P xs) = map g [0..<length (filter P xs)]"
    and "k < length xs" and "P (xs ! k)"
  shows "f (xs ! k) = g (length (filter P (take k xs)))"
proof -
  let ?m = "length (filter P (take k xs))"
  have xs: "xs = take k xs @ xs ! k # drop (Suc k) xs"
    using assms(2) by (simp add: id_take_nth_drop)
  have "filter P xs = filter P (take k xs) @ xs ! k # filter P (drop (Suc k) xs)"
    using assms(3) by (subst xs) simp
  then have nth: "filter P xs ! ?m = xs ! k" and len: "?m < length (filter P xs)"
    by (simp_all add: nth_append)
  have "f (xs ! k) = map f (filter P xs) ! ?m"
    using nth len by simp
  also have "\<dots> = map g [0..<length (filter P xs)] ! ?m"
    using assms(1) by simp
  also have "\<dots> = g ?m"
    using len by simp
  finally show ?thesis .
qed

text \<open>
  C3. In a pass over links whose indices are \<open>0..N-1\<close> in document order, begun with the
  exclusion counter at 0 (as \<open>reset\<close> leaves it), the offset indices of the links that are
  not excluded are exactly \<open>0..K-1\<close> in document order, \<open>K\<close> their number, and the offset
  index of an excluded link is the number of links excluded before it, the count of
  exclusions at the moment it is excluded. Every link of the pass is one or the other.
\<close>

theorem offsetIndex_dense:
  assumes "forEach_maybeEnqueueLink X i links = Inr (i', links')"
    and "excludedLinks i = 0"
    and "\<forall>k<length links. html_index (html (links ! k)) = int k"
  shows "map (\<lambda>l. html_offsetIndex (html l)) (filter included links') =
           map (\<lambda>j. Some (int j)) [0..<length (filter included links')] \<and>
         (\<forall>k<length links'. junk (links' ! k) \<longrightarrow>
            html_offsetIndex (html (links' ! k)) = Some (int (length (filter junk (take k links'))))) \<and>
         (\<forall>l \<in> set links'. included l \<or> junk l) \<and>
         length links' = length links"
proof -
  from assms(3) have ix: "\<forall>k<length links. html_index (html (links ! k)) = 0 + int k" by simp
  from forEach_offsets[OF assms(1) ix] assms(2)
  have len: "length links' = length links"
    and inc: "map (\<lambda>l. html_offsetIndex (html l)) (filter included links') =
           map (\<lambda>j. Some (int j)) [0..<length (filter included links')]"
    and exc: "map (\<lambda>l. html_offsetIndex (html l)) (filter junk links') =
           map (\<lambda>j. Some (int j)) [0..<length (filter junk links')]"
    and all: "\<forall>l \<in> set links'. included l \<or> junk l"
    by simp_all
  have "\<forall>k<length links'. junk (links' ! k) \<longrightarrow>
      html_offsetIndex (html (links' ! k)) = Some (int (length (filter junk (take k links'))))"
    using nth_filter_count[OF exc] by blast
  with len inc all show ?thesis by blast
qed

lemmas ex_defs = ex_active_def after_scan_def ex_idle_def new_HtmlChecker_def ex_options_def
  ex_tags_def ex_link_def ex_ext_def

text \<open>
  A pass over three links, of which the second is external and excluded: the offsets of
  the two others are 0 and 1, that of the excluded one is 0.
\<close>

theorem offsetIndex_dense_witness:
  "\<exists>i' links'.
     forEach_maybeEnqueueLink ex_ext ex_active ex_three_links = Inr (i', links') \<and>
     excludedLinks ex_active = 0 \<and>
     map (\<lambda>l. html_index (html l)) ex_three_links = [0, 1, 2] \<and>
     map (\<lambda>l. (excluded l, html_offsetIndex (html l))) links' =
       [(Some False, Some 0), (Some True, Some 0), (Some False, Some 1)]"
proof -
  have ev: "\<exists>i' links'.
     forEach_maybeEnqueueLink ex_ext ex_active ex_three_links = Inr (i', links') \<and>
     map (\<lambda>l. (excluded l, html_offsetIndex (html l))) links' =
       [(Some False, Some 0), (Some True, Some 0), (Some False, Some 1)]"
    by (simp add: ex_three_links_def ex_defs scan_def Let_def maybeEnqueueLink_def
        maybeExcludeLink_def enqueue_def rq_enqueue_def new_UrlChecker_def new_RequestQueue_def
        emit_def)
  then obtain i' links' where
    r: "forEach_maybeEnqueueLink ex_ext ex_active ex_three_links = Inr (i', links')"
    and m: "map (\<lambda>l. (excluded l, html_offsetIndex (html l))) links' =
       [(Some False, Some 0), (Some True, Some 0), (Some False, Some 1)]"
    by (elim exE conjE)
  have h2: "excludedLinks ex_active = 0"
    by (simp add: ex_defs scan_def Let_def)
  have ix: "map (\<lambda>l. html_index (html l)) ex_three_links = [0, 1, 2]"
    by (simp add: ex_three_links_def ex_link_def)
  have h3: "\<forall>k<length ex_three_links. html_index (html (ex_three_links ! k)) = int k"
    by (simp add: ex_three_links_def ex_link_def All_less_Suc)
  from offsetIndex_dense[OF r h2 h3] r m h2 ix show ?thesis by (intro exI conjI)
qed

section \<open>The base of a document\<close>

lemma acc_base_append: "acc_base b (xs @ ys) = acc_base (acc_base b xs) ys"
  by (cases b) (auto simp: acc_base_def first_base_def split: list.splits)

lemma acc_base_Nil: "acc_base b [] = b"
  by (cases b) (auto simp: acc_base_def first_base_def)

lemma findPreliminaries_node_base:
  "\<exists>k r'. findPreliminaries_node X p n (b, r) = Inr (k, (acc_base b [n], r')) \<and>
          (\<not> k \<longrightarrow> acc_base b [n] \<noteq> None)"
  by (cases b)
    (auto simp: findPreliminaries_node_def Let_def acc_base_def first_base_def has_href_base_def)

text \<open>
  The walk of \<open>findPreliminaries\<close> raises nothing; it leaves a base that was found and
  else finds the first of the nodes it is to visit, and it is killed only with a base.
\<close>

lemma walk_findPreliminaries_base:
  "\<exists>k r'. walk (findPreliminaries_node X) p n (b, r) = Inr (k, (acc_base b (preorder n), r')) \<and>
          (\<not> k \<longrightarrow> acc_base b (preorder n) \<noteq> None)"
  and "\<exists>k r'. walk_childNodes (findPreliminaries_node X) p i cs (b, r) =
          Inr (k, (acc_base b (concat (map preorder cs)), r')) \<and>
          (\<not> k \<longrightarrow> acc_base b (concat (map preorder cs)) \<noteq> None)"
proof (induction "findPreliminaries_node X" p n "(b, r)" and "findPreliminaries_node X" p i cs "(b, r)"
    arbitrary: b r and b r rule: walk_walk_childNodes.induct)
  case (1 p n a m v cso)
  let ?node = "Node n a m v cso"
  from findPreliminaries_node_base[of X p ?node b r]
  obtain k r1 where cb: "findPreliminaries_node X p ?node (b, r) = Inr (k, (acc_base b [?node], r1))"
    and kill: "\<not> k \<longrightarrow> acc_base b [?node] \<noteq> None" by blast
  show ?case
  proof (cases k)
    case False
    with kill obtain x where x: "acc_base b [?node] = Some x" by auto
    have "acc_base b (preorder ?node) = Some x"
      using x acc_base_append[of b "[?node]" "case cso of None \<Rightarrow> [] | Some cs \<Rightarrow> concat (map preorder cs)"]
      by (simp add: acc_base_def)
    with cb False x show ?thesis by auto
  next
    case True
    show ?thesis
    proof (cases cso)
      case None
      with cb True show ?thesis by auto
    next
      case (Some cs)
      from True have kT: "k = True" by simp
      from "1"[OF cb refl kT Some]
      obtain k2 r2 where w: "walk_childNodes (findPreliminaries_node X) p 0 cs (acc_base b [?node], r1) =
          Inr (k2, (acc_base (acc_base b [?node]) (concat (map preorder cs)), r2))"
        and kill2: "\<not> k2 \<longrightarrow> acc_base (acc_base b [?node]) (concat (map preorder cs)) \<noteq> None"
        by blast
      have "acc_base b (preorder ?node) = acc_base (acc_base b [?node]) (concat (map preorder cs))"
        using acc_base_append[of b "[?node]" "concat (map preorder cs)"] Some by simp
      with cb True Some w kill2 show ?thesis by auto
    qed
  qed
next
  case (2 p i)
  show ?case by (auto simp: acc_base_Nil)
next
  case (3 p i childNode rest)
  from "3"(1) obtain k r1 where
    w: "walk (findPreliminaries_node X) (p @ [i]) childNode (b, r) =
          Inr (k, (acc_base b (preorder childNode), r1))"
    and kill: "\<not> k \<longrightarrow> acc_base b (preorder childNode) \<noteq> None" by blast
  show ?case
  proof (cases k)
    case False
    with kill obtain x where x: "acc_base b (preorder childNode) = Some x" by auto
    have "acc_base b (concat (map preorder (childNode # rest))) = Some x"
      using x acc_base_append[of b "preorder childNode" "concat (map preorder rest)"]
      by (simp add: acc_base_def)
    with w False x show ?thesis by auto
  next
    case True
    from True have kT: "k = True" by simp
    from "3"(2)[OF w refl kT] obtain k2 r2 where
      w2: "walk_childNodes (findPreliminaries_node X) p (Suc i) rest (acc_base b (preorder childNode), r1) =
         Inr (k2, (acc_base (acc_base b (preorder childNode)) (concat (map preorder rest)), r2))"
      and kill2: "\<not> k2 \<longrightarrow> acc_base (acc_base b (preorder childNode)) (concat (map preorder rest)) \<noteq> None"
      by blast
    from w True w2 kill2 show ?thesis
      by (auto simp: acc_base_append)
  qed
qed

text \<open>
  C5, as the specification words it, fails: in the example the first \<open>base\<close> has an empty
  \<open>href\<close> and the second the \<open>href\<close> \<open>/x/\<close>. The base of the scraper is the empty string of
  the first, not the \<open>href\<close> of the first \<open>base\<close> whose \<open>href\<close> is not empty.
\<close>

theorem base_nonempty_counterexample:
  "findPreliminaries ex_ext [0] ex_root_bases (Some (new_RobotDirectives ''ua'')) =
     Inr (Some '''', Some (new_RobotDirectives ''ua'')) \<and>
   first_nonempty_base (preorder ex_root_bases) = Some ''/x/''"
  by (simp add: ex_root_bases_def element_def findPreliminaries_def findPreliminaries_node_def
      first_nonempty_base_def ex_ext_def trim_def isWhiteSpace_def Let_def)

text \<open>
  C5, amended. For every root node, with or without a collector, \<open>findPreliminaries\<close>
  raises nothing, and its base is the \<open>href\<close>, trimmed of the white space around it, of the
  first \<open>base\<close> element in document order that has an \<open>href\<close> attribute, empty or not
  (\<open>None\<close> when there is none): a \<open>base\<close> without \<open>href\<close> is skipped and later ones are
  still considered.
\<close>

theorem findPreliminaries_first_base:
  "\<exists>r'. findPreliminaries X p rootNode r = Inr (first_base (preorder rootNode), r')"
proof -
  from walk_findPreliminaries_base(1)[of X p rootNode None r]
  obtain k r' where "walk (findPreliminaries_node X) p rootNode (None, r) =
      Inr (k, (acc_base None (preorder rootNode), r'))" by blast
  then show ?thesis by (simp add: findPreliminaries_def acc_base_def)
qed

section \<open>A rejected enqueue\<close>

text \<open>
  A link without a rebased URL that none of the first four rules excludes does not get
  as far as the queue: the fifth rule reads \<open>link.url.rebased.protocol\<close>.
\<close>

lemma maybeExcludeLink_null_rebased:
  assumes "filterLevel (options i) < length (tags (options i))"
    and "\<not> rule_html X i l" and "\<not> rule_external X i l" and "\<not> rule_internal X i l"
    and "\<not> rule_samepage X i l" and "url_rebased l = None"
  shows "maybeExcludeLink X i l = Inl TypeError"
  using assms
  by (simp add: maybeExcludeLink_def Let_def rule_html_def rule_external_def rule_internal_def
      rule_samepage_def)

text \<open>
  A link that \<open>maybeExcludeLink\<close> returns \<open>false\<close> for has a rebased URL: the fifth and the
  ninth rule have read it.
\<close>

lemma maybeExcludeLink_false_has_rebased:
  assumes "maybeExcludeLink X i l = Inr None"
  shows "url_rebased l \<noteq> None"
  using assms unfolding maybeExcludeLink_rules
  by (auto split: if_splits)

text \<open>
  The branch \<open>id === undefined\<close> of \<open>maybeEnqueueLink\<close>: once the filter has returned
  \<open>false\<close> and \<open>enqueue\<close> has returned \<open>undefined\<close>, the link is marked broken for the reason
  \<open>BLC_INVALID\<close> and emitted by one "link"; the checker and its queue are as before.
\<close>

lemma maybeEnqueueLink_rejected:
  assumes "maybeExcludeLink X i l = Inr None"
    and "fst (enqueue X (urlChecker i) l (auth i)) = None"
  shows "maybeEnqueueLink X i l =
           Inr (emit (EvLink (l\<lparr>html := (html l)\<lparr>html_offsetIndex := Some (html_index (html l) - excludedLinks i)\<rparr>,
                               excluded := Some False, broken := Some True,
                               brokenReason := Some ''BLC_INVALID''\<rparr>)) i,
                l\<lparr>html := (html l)\<lparr>html_offsetIndex := Some (html_index (html l) - excludedLinks i)\<rparr>,
                  excluded := Some False, broken := Some True,
                  brokenReason := Some ''BLC_INVALID''\<rparr>)"
proof -
  from assms(2) have ns: "\<not> schedulable X (url_rebased l)"
    by (auto simp: enqueue_def rq_enqueue_def split: if_splits)
  let ?l1 = "l\<lparr>html := (html l)\<lparr>html_offsetIndex := Some (html_index (html l) - excludedLinks i)\<rparr>,
                excluded := Some False\<rparr>"
  have e: "enqueue X (urlChecker i) ?l1 (auth i) = (None, urlChecker i)"
    using ns by (simp add: enqueue_def rq_enqueue_def)
  show ?thesis
    using assms(1) e by (simp add: maybeEnqueueLink_def Let_def)
qed

text \<open>
  A link without a rebased URL does not reach that branch: either one of the first four
  rules excludes it, and it is junk, or \<open>maybeEnqueueLink\<close> raises.
\<close>

lemma maybeEnqueueLink_null_rebased:
  assumes "url_rebased l = None"
  shows "maybeEnqueueLink X i l = Inl TypeError \<or>
         (\<exists>reason l'. maybeExcludeLink X i l = Inr (Some reason) \<and>
            maybeEnqueueLink X i l = Inr (emit (EvJunk l') (i\<lparr>excludedLinks := excludedLinks i + 1\<rparr>), l') \<and>
            broken l' = broken l \<and> brokenReason l' = brokenReason l)"
proof (cases "maybeExcludeLink X i l")
  case (Inl e)
  then show ?thesis by (cases e) (simp add: maybeEnqueueLink_def)
next
  case (Inr r)
  show ?thesis
  proof (cases r)
    case None
    with Inr maybeExcludeLink_false_has_rebased[of X i l] assms show ?thesis by simp
  next
    case (Some reason)
    with Inr show ?thesis by (simp add: maybeEnqueueLink_def Let_def)
  qed
qed

text \<open>The links of the example document whose second link does not resolve.\<close>

lemma scrapeHtml_ex_document_invalid:
  "scrapeHtml ex_ext_strict ex_tags ex_document_invalid (baseUrl ex_active) (robots ex_active) =
     Inr ([ex_link \<lparr>protocol = ''http:'', href = ''http://blc/a''\<rparr> True 0
            \<lparr>html := (html (ex_link \<lparr>protocol = ''http:'', href = ''http://blc/a''\<rparr> True 0))
               \<lparr>html_tag := stringifyNode (element ''a'' [(''href'', ''http://blc/a'')] [])\<rparr>\<rparr>,
           ex_invalid_link,
           ex_link \<lparr>protocol = ''http:'', href = ''http://blc/c''\<rparr> True 2
            \<lparr>html := (html (ex_link \<lparr>protocol = ''http:'', href = ''http://blc/c''\<rparr> True 2))
               \<lparr>html_tag := stringifyNode (element ''a'' [(''href'', ''http://blc/c'')] []),
                html_selector := ''html > body > a:nth-child(3)''\<rparr>\<rparr>],
          robots ex_active)"
  by (simp add: scrapeHtml_def ex_document_invalid_def element_def findRootNode_def
      findPreliminaries_def findPreliminaries_node_def findLinks_def findLinks_node_def
      maxFilterLevel_def attr_url_def call_callback_def scrapeHtml_callback_def getSelector_def
      getNthIndex_def getText_def trim_def isWhiteSpace_def Let_def digit_def ex_defs
      ex_ext_strict_def ex_invalid_link_def scan_def stringifyNode_def new_RobotDirectives_def)

text \<open>
  C6. The specification says that a link that is not excluded and whose enqueue is rejected, as for
  a URL that cannot be parsed, is reported at once by a "link" marked broken for the
  reason \<open>BLC_INVALID\<close>, that no exception is raised and that the scan goes on. The code
  has the branch that reports such a link, but the filter runs before \<open>enqueue\<close> and its
  fifth rule reads \<open>link.url.rebased.protocol\<close>. The second link of the example document
  has the \<open>href\<close> \<open>http://[\<close>, which does not resolve: it has no rebased URL, no rule
  before the fifth excludes it, and the queue would reject it. For this link
  \<open>maybeExcludeLink\<close> raises \<open>TypeError\<close>, and so does \<open>maybeEnqueueLink\<close>, before \<open>enqueue\<close>
  is called; the pass over the links of the document ends with the exception: no "link"
  is emitted for the link, the third link is not filtered, \<open>parsed\<close> is not set and
  "complete" is not emitted.
\<close>

theorem invalid_link_raises_before_enqueue:
  "(case scrapeHtml ex_ext_strict ex_tags ex_document_invalid (baseUrl ex_active) (robots ex_active) of
      Inl e \<Rightarrow> False
    | Inr (links, r) \<Rightarrow> length links = 3 \<and> links ! 1 = ex_invalid_link) \<and>
   url_rebased ex_invalid_link = None \<and>
   fst (enqueue ex_ext_strict (urlChecker ex_active) ex_invalid_link (auth ex_active)) = None \<and>
   maybeExcludeLink ex_ext_strict ex_active ex_invalid_link = Inl TypeError \<and>
   maybeEnqueueLink ex_ext_strict ex_active ex_invalid_link = Inl TypeError \<and>
   scan_parsed ex_ext_strict ex_tags id ex_active ex_document_invalid = Inl TypeError"
proof (intro conjI)
  show "case scrapeHtml ex_ext_strict ex_tags ex_document_invalid (baseUrl ex_active) (robots ex_active) of
      Inl e \<Rightarrow> False
    | Inr (links, r) \<Rightarrow> length links = 3 \<and> links ! 1 = ex_invalid_link"
    unfolding scrapeHtml_ex_document_invalid by simp
  show "url_rebased ex_invalid_link = None"
    by (simp add: ex_invalid_link_def)
  show "fst (enqueue ex_ext_strict (urlChecker ex_active) ex_invalid_link (auth ex_active)) = None"
    by (simp add: enqueue_def rq_enqueue_def ex_ext_strict_def ex_invalid_link_def)
  show x: "maybeExcludeLink ex_ext_strict ex_active ex_invalid_link = Inl TypeError"
    by (simp add: maybeExcludeLink_def Let_def ex_defs scan_def ex_invalid_link_def)
  then show m: "maybeEnqueueLink ex_ext_strict ex_active ex_invalid_link = Inl TypeError"
    by (simp add: maybeEnqueueLink_def)
  have x1: "maybeExcludeLink ex_ext_strict i ex_invalid_link = Inl TypeError"
    if "options i = ex_options" for i
    using that by (simp add: maybeExcludeLink_def Let_def ex_options_def ex_tags_def ex_invalid_link_def)
  have m1: "maybeEnqueueLink ex_ext_strict i ex_invalid_link = Inl TypeError"
    if "options i = ex_options" for i
    using x1[OF that] by (simp add: maybeEnqueueLink_def)
  have o: "options ex_active = ex_options"
    by (simp add: ex_active_def after_scan_def scan_def ex_idle_def new_HtmlChecker_def Let_def ex_ext_def)
  have f: "forEach_maybeEnqueueLink ex_ext_strict i (l # ex_invalid_link # ls) = Inl TypeError"
    if "options i = ex_options" for i l ls
  proof (cases "maybeEnqueueLink ex_ext_strict i l")
    case (Inl e)
    then show ?thesis by (cases e) simp
  next
    case (Inr r)
    obtain i1 l1 where r: "r = (i1, l1)" by (cases r)
    have "options i1 = options i"
      using Inr r
      by (auto simp: maybeEnqueueLink_def Let_def emit_def split: sum.splits option.splits prod.splits)
    with that have "maybeEnqueueLink ex_ext_strict i1 ex_invalid_link = Inl TypeError"
      by (simp add: m1)
    with Inr r show ?thesis by simp
  qed
  have s: "scan_then ex_ext_strict id i (l # ex_invalid_link # ls) = Inl TypeError"
    if "options i = ex_options" for i l ls
    unfolding scan_then_def by (subst f) (simp_all add: that emit_def)
  show "scan_parsed ex_ext_strict ex_tags id ex_active ex_document_invalid = Inl TypeError"
    unfolding scan_parsed_def scrapeHtml_ex_document_invalid by (simp add: s o)
qed

section \<open>No "complete" before the end of the pass\<close>

lemma maybeEnqueueLink_preserves:
  assumes "maybeEnqueueLink X i l = Inr (i1, l1)"
  shows "active i1 = active i \<and> parsed i1 = parsed i \<and> count_complete i1 = count_complete i"
proof (cases "maybeExcludeLink X i l")
  case (Inl e)
  with assms show ?thesis by (simp add: maybeEnqueueLink_def)
next
  case (Inr res)
  show ?thesis
  proof (cases res)
    case None
    obtain r uc where e: "enqueue X (urlChecker i)
        (l\<lparr>html := (html l)\<lparr>html_offsetIndex := Some (html_index (html l) - excludedLinks i)\<rparr>,
           excluded := Some False\<rparr>) (auth i) = (r, uc)"
      by (cases "enqueue X (urlChecker i)
        (l\<lparr>html := (html l)\<lparr>html_offsetIndex := Some (html_index (html l) - excludedLinks i)\<rparr>,
           excluded := Some False\<rparr>) (auth i)") auto
    from assms Inr None e show ?thesis
      by (cases r) (auto simp: maybeEnqueueLink_def Let_def emit_def count_complete_def)
  next
    case (Some reason)
    with assms Inr show ?thesis
      by (auto simp: maybeEnqueueLink_def Let_def emit_def count_complete_def)
  qed
qed

lemma reachable_invariant: "reachable X tags' s \<Longrightarrow> scan_invariant s"
proof (induction rule: reachable.induct)
  case (r_new os)
  show ?case by (simp add: scan_invariant_def new_HtmlChecker_def count_complete_def)
next
  case (r_scan s html' baseUrl' robots' auth' ok i')
  then show ?case
    by (auto simp: scan_invariant_def scan_def Let_def count_complete_def
        split: if_splits sum.splits)
next
  case (r_html s document links robots1)
  then show ?case
    by (auto simp: scan_invariant_def emit_def count_complete_def)
next
  case (r_filter s l ls i' l')
  from maybeEnqueueLink_preserves[OF r_filter(3)] r_filter(2,4) show ?case
    by (auto simp: scan_invariant_def)
next
  case (r_finish s)
  then show ?case
    by (auto simp: scan_invariant_def scan_finish_def Let_def complete_def emit_def reset_def
        count_complete_def)
next
  case (r_raise s robots1)
  then show ?case
    by (auto simp: scan_invariant_def count_complete_def)
next
  case (r_end s)
  then show ?case
    by (auto simp: scan_invariant_def urlChecker_end_def complete_def emit_def reset_def
        count_complete_def)
next
  case (r_link s result)
  then show ?case
    by (auto simp: scan_invariant_def urlChecker_link_def emit_def count_complete_def)
next
  case (r_queue s uc)
  then show ?case
    by (auto simp: scan_invariant_def count_complete_def)
qed

text \<open>
  The steps of a pass make up the two \<open>then\<close> of \<open>scan\<close>: what \<open>scan_parsed\<close> computes
  from an instance that is parsing is reached by the step of "html", the turns of the
  loop and the end of the pass.
\<close>

lemma filter_steps_reachable:
  "reachable X tags' s \<Longrightarrow> phase s = Filtering ls \<Longrightarrow>
   forEach_maybeEnqueueLink X (inst s) ls = Inr (i1, ls1) \<Longrightarrow>
   reachable X tags' (s\<lparr>inst := i1, phase := Filtering []\<rparr>)"
proof (induction ls arbitrary: s ls1)
  case Nil
  from Nil(3) have "i1 = inst s" by simp
  moreover from Nil(2) have "s\<lparr>inst := inst s, phase := Filtering []\<rparr> = s" by simp
  ultimately show ?case using Nil(1) by simp
next
  case (Cons l ls)
  from Cons.prems(3) obtain i2 l2 ls2 where
    m: "maybeEnqueueLink X (inst s) l = Inr (i2, l2)"
    and f: "forEach_maybeEnqueueLink X i2 ls = Inr (i1, ls2)"
    by (auto split: sum.splits)
  from r_filter[OF Cons.prems(1,2) m]
  have r: "reachable X tags' (s\<lparr>inst := i2, phase := Filtering ls\<rparr>)" .
  from Cons.IH[OF r, of ls2] f show ?case by simp
qed

lemma scan_parsed_reachable:
  assumes "reachable X tags' s" and "phase s = Parsing"
    and "scan_parsed X tags' (\<lambda>j. j) (inst s) document = Inr (i', links')"
  shows "reachable X tags' (s\<lparr>inst := i', phase := NoPass, finished := Suc (finished s)\<rparr>)"
proof -
  from assms(3) obtain links robots1 i1 where
    sc: "scrapeHtml X tags' document (baseUrl (inst s)) (robots (inst s)) = Inr (links, robots1)"
    and fe: "forEach_maybeEnqueueLink X (emit EvHtml ((inst s)\<lparr>robots := robots1\<rparr>)) links =
               Inr (i1, links')"
    and i': "i' = scan_finish (\<lambda>j. j) i1"
    by (auto simp: scan_parsed_def scan_then_def split: sum.splits)
  from r_html[OF assms(1,2) sc]
  have r1: "reachable X tags'
      (s\<lparr>inst := emit EvHtml ((inst s)\<lparr>robots := robots1\<rparr>), phase := Filtering links\<rparr>)" .
  from filter_steps_reachable[OF r1, of links i1 links'] fe
  have r2: "reachable X tags' (s\<lparr>inst := i1, phase := Filtering []\<rparr>)" by simp
  from r_finish[OF r2] i' show ?thesis by simp
qed

text \<open>
  C10. In every state that an instance reaches, the number of "complete" it has emitted
  is at most the number of passes that have reached their end; and as long as the pass of
  the scan under way has not (the document is being parsed, or links are still to be
  filtered), the parsed flag is unset, every "complete" emitted so far belongs to a pass
  that had ended, and an "end" of the queue leaves the instance as it is, emitting nothing.
\<close>

theorem no_complete_before_pass_finished:
  assumes "reachable X tags' s"
  shows "count_complete (inst s) \<le> finished s \<and>
         (phase s \<noteq> NoPass \<longrightarrow>
            \<not> parsed (inst s) \<and> count_complete (inst s) = finished s \<and>
            urlChecker_end on_complete (inst s) = inst s)"
  using reachable_invariant[OF assms]
  by (auto simp: scan_invariant_def urlChecker_end_def)

text \<open>
  A scan of the example document; when its "html" is emitted and its link is still to
  be filtered, the queue emits "end". No "complete" follows.
\<close>

theorem no_complete_before_pass_finished_witness:
  "\<exists>s. reachable ex_ext ex_tags s \<and> phase s \<noteq> NoPass \<and> length (emitted (inst s)) = 1 \<and>
       \<not> parsed (inst s) \<and> count_complete (inst s) = 0 \<and> finished s = 0 \<and>
       urlChecker_end (\<lambda>j. j) (inst s) = inst s"
proof -
  let ?s0 = "\<lparr>inst = new_HtmlChecker ex_options, phase = NoPass, finished = 0\<rparr>"
  have r0: "reachable ex_ext ex_tags ?s0" by (rule r_new)
  have sc: "scan ex_ext (inst ?s0) ''<html></html>'' ''http://blc/'' None None = Inr (True, ex_active)"
    by (simp add: ex_active_def after_scan_def ex_idle_def scan_def Let_def new_HtmlChecker_def
        ex_ext_def)
  let ?s1 = "?s0\<lparr>inst := ex_active, phase := Parsing\<rparr>"
  from r_scan[OF r0 sc] have r1: "reachable ex_ext ex_tags ?s1" by simp
  have "\<exists>links r. scrapeHtml ex_ext ex_tags ex_document_mixed (baseUrl (inst ?s1)) (robots (inst ?s1)) =
      Inr (links, r)"
    by (simp add: scrapeHtml_def ex_document_mixed_def element_def findRootNode_def
        findPreliminaries_def findPreliminaries_node_def findLinks_def findLinks_node_def
        maxFilterLevel_def attr_url_def call_callback_def scrapeHtml_callback_def getSelector_def
        getNthIndex_def getText_def trim_def isWhiteSpace_def Let_def digit_def ex_defs scan_def
        new_RobotDirectives_def)
  then obtain links r where
    sh: "scrapeHtml ex_ext ex_tags ex_document_mixed (baseUrl (inst ?s1)) (robots (inst ?s1)) =
      Inr (links, r)" by (elim exE)
  let ?s2 = "?s1\<lparr>inst := emit EvHtml ((inst ?s1)\<lparr>robots := r\<rparr>), phase := Filtering links\<rparr>"
  have p1: "phase ?s1 = Parsing" by simp
  from r_html[OF r1 p1 sh] have r2: "reachable ex_ext ex_tags ?s2" .
  let ?s3 = "?s2\<lparr>inst := urlChecker_end (\<lambda>j. j) (inst ?s2)\<rparr>"
  from r_end[OF r2] have r3: "reachable ex_ext ex_tags ?s3" .
  have e3: "urlChecker_end (\<lambda>j. j) (inst ?s2) = inst ?s2"
    by (simp add: urlChecker_end_def emit_def ex_defs scan_def Let_def)
  have f3: "phase ?s3 \<noteq> NoPass" "finished ?s3 = 0" "length (emitted (inst ?s3)) = 1"
    by (simp_all add: urlChecker_end_def emit_def ex_defs scan_def Let_def)
  from no_complete_before_pass_finished[OF r3, of "\<lambda>j. j"] f3 r3
  have "reachable ex_ext ex_tags ?s3 \<and> phase ?s3 \<noteq> NoPass \<and> length (emitted (inst ?s3)) = 1 \<and>
       \<not> parsed (inst ?s3) \<and> count_complete (inst ?s3) = 0 \<and> finished ?s3 = 0 \<and>
       urlChecker_end (\<lambda>j. j) (inst ?s3) = inst ?s3"
    by simp
  then show ?thesis by (rule exI[of _ ?s3])
qed

section \<open>The walk and the links of the scraper\<close>

text \<open>The node at a path and at the paths above it.\<close>

lemma node_at_snoc:
  "node_at d (q @ [k]) =
     (case node_at d q of
        None \<Rightarrow> None
      | Some n \<Rightarrow>
          (case childNodes n of
             None \<Rightarrow> None
           | Some cs \<Rightarrow> if k < length cs then Some (cs ! k) else None))"
  by (induction q arbitrary: d) (auto split: option.splits)

lemma node_at_take:
  "node_at d p = Some n \<Longrightarrow> \<exists>m. node_at d (take j p) = Some m"
proof (induction p arbitrary: d j n)
  case Nil
  then show ?case by simp
next
  case (Cons k ks)
  show ?case
  proof (cases j)
    case 0
    then show ?thesis by simp
  next
    case (Suc j')
    with Cons show ?thesis
      by (auto split: option.splits if_splits)
  qed
qed

text \<open>
  A property of the state that the callback keeps at every node of the document is kept
  by a walk that starts at a node of the document: the paths that the walk hands to the
  callback are the paths of the nodes it hands to it.
\<close>

lemma walk_invariant_at:
  "(\<And>q m s b s'. node_at d q = Some m \<Longrightarrow> P s \<Longrightarrow> callback q m s = Inr (b, s') \<Longrightarrow> P s') \<Longrightarrow>
   node_at d p = Some n \<Longrightarrow> P s \<Longrightarrow> walk callback p n s = Inr (b, s') \<Longrightarrow> P s'"
  and "(\<And>q m s b s'. node_at d q = Some m \<Longrightarrow> P s \<Longrightarrow> callback q m s = Inr (b, s') \<Longrightarrow> P s') \<Longrightarrow>
   (\<forall>j<length cs. node_at d (p @ [i + j]) = Some (cs ! j)) \<Longrightarrow>
   P s \<Longrightarrow> walk_childNodes callback p i cs s = Inr (b, s') \<Longrightarrow> P s'"
proof (induction callback p n s and callback p i cs s arbitrary: b s' and b s'
    rule: walk_walk_childNodes.induct)
  case (1 callback p n a m v cso s)
  let ?node = "Node n a m v cso"
  from "1.prems"(4) obtain k s1 where c: "callback p ?node s = Inr (k, s1)"
    by (auto split: sum.splits)
  from "1.prems"(1)[OF "1.prems"(2,3) c] have P1: "P s1" .
  show ?case
  proof (cases k)
    case False
    with "1.prems"(4) c P1 show ?thesis by simp
  next
    case True
    then have kT: "k = True" by simp
    show ?thesis
    proof (cases cso)
      case None
      with "1.prems"(4) c True P1 show ?thesis by simp
    next
      case (Some cs)
      from "1.prems"(4) c True Some have w: "walk_childNodes callback p 0 cs s1 = Inr (b, s')" by simp
      have at: "\<forall>j<length cs. node_at d (p @ [0 + j]) = Some (cs ! j)"
        using "1.prems"(2) Some by (simp add: node_at_snoc)
      from "1.IH"[OF c refl kT Some "1.prems"(1) at P1 w] show ?thesis .
    qed
  qed
next
  case (2 callback p i s)
  then show ?case by simp
next
  case (3 callback p i childNode rest s)
  from "3.prems"(4) obtain k s1 where w: "walk callback (p @ [i]) childNode s = Inr (k, s1)"
    by (auto split: sum.splits)
  from "3.prems"(2) have "node_at d (p @ [i + 0]) = Some ((childNode # rest) ! 0)" by blast
  then have at0: "node_at d (p @ [i]) = Some childNode" by simp
  from "3.IH"(1)[OF "3.prems"(1) at0 "3.prems"(3) w] have P1: "P s1" .
  show ?case
  proof (cases k)
    case False
    with "3.prems"(4) w P1 show ?thesis by simp
  next
    case True
    then have kT: "k = True" by simp
    from "3.prems"(4) w True have w2: "walk_childNodes callback p (Suc i) rest s1 = Inr (b, s')" by simp
    have at: "\<forall>j<length rest. node_at d (p @ [Suc i + j]) = Some (rest ! j)"
    proof (intro allI impI)
      fix j assume "j < length rest"
      then have "Suc j < length (childNode # rest)" by simp
      with "3.prems"(2) have "node_at d (p @ [i + Suc j]) = Some ((childNode # rest) ! Suc j)" by blast
      then show "node_at d (p @ [Suc i + j]) = Some (rest ! j)" by simp
    qed
    from "3.IH"(2)[OF w refl kT "3.prems"(1) at P1 w2] show ?thesis .
  qed
qed

lemma forEach_callback_invariant:
  assumes "\<And>u s s'. I s \<Longrightarrow> callback u s = Inr s' \<Longrightarrow> I s'"
  shows "I s \<Longrightarrow> forEach_callback callback us s = Inr s' \<Longrightarrow> I s'"
proof (induction us arbitrary: s)
  case Nil
  then show ?case by simp
next
  case (Cons u us)
  from Cons.prems(2) obtain s1 where c: "callback u s = Inr s1"
    and r: "forEach_callback callback us s1 = Inr s'"
    by (auto split: sum.splits)
  from Cons.IH[OF assms[OF Cons.prems(1) c] r] show ?case .
qed

lemma call_callback_invariant:
  assumes "\<And>u s s'. I s \<Longrightarrow> callback u s = Inr s' \<Longrightarrow> I s'"
    and "I s" and "call_callback callback v s = Inr s'"
  shows "I s'"
proof (cases v)
  case UrlNull
  with assms(2,3) show ?thesis by (simp add: call_callback_def)
next
  case (UrlString u)
  with assms(3) have "callback u s = Inr s'" by (simp add: call_callback_def)
  from assms(1)[OF assms(2) this] show ?thesis .
next
  case (UrlArray us)
  with assms(3) have "forEach_callback callback us s = Inr s'" by (simp add: call_callback_def)
  from forEach_callback_invariant[of I callback, OF assms(1) assms(2) this] show ?thesis .
qed

lemma findLinks_attrs_invariant:
  assumes "\<And>attrName u s s'. linkAttrs attrName \<Longrightarrow> I s \<Longrightarrow> callback node attrName u s = Inr s' \<Longrightarrow> I s'"
  shows "I s \<Longrightarrow> findLinks_attrs X linkAttrs callback node as s = Inr s' \<Longrightarrow> I s'"
proof (induction as arbitrary: s)
  case Nil
  then show ?case by simp
next
  case (Cons a as)
  show ?case
  proof (cases "linkAttrs (fst a)")
    case False
    with Cons.prems(2) have "findLinks_attrs X linkAttrs callback node as s = Inr s'"
      by (simp add: Let_def)
    from Cons.IH[OF Cons.prems(1) this] show ?thesis .
  next
    case True
    with Cons.prems(2) obtain v s1 where
      c: "call_callback (callback node (fst a)) v s = Inr s1"
      and r: "findLinks_attrs X linkAttrs callback node as s1 = Inr s'"
      by (auto simp: Let_def split: sum.splits)
    have "I s1"
      by (rule call_callback_invariant[of I "callback node (fst a)", OF assms[OF True] Cons.prems(1) c])
    from Cons.IH[OF this r] show ?thesis .
  qed
qed

lemma findLinks_node_invariant:
  assumes "\<And>linkAttrs attrName u s s'. t (nodeName node) = Some linkAttrs \<Longrightarrow> linkAttrs attrName \<Longrightarrow>
             I s \<Longrightarrow> callback p node attrName u s = Inr s' \<Longrightarrow> I s'"
    and "I s"
    and "findLinks_node X (Some t) callback p node s = Inr (b, s')"
  shows "I s'"
proof (cases "t (nodeName node)")
  case None
  with assms(2,3) show ?thesis by (simp add: findLinks_node_def)
next
  case (Some linkAttrs)
  with assms(3) have f: "findLinks_attrs X linkAttrs (callback p) node (attrs node) s = Inr s'"
    by (auto simp: findLinks_node_def split: sum.splits)
  show ?thesis
    by (rule findLinks_attrs_invariant[of linkAttrs I "callback p" node, OF assms(1)[OF Some] assms(2) f])
qed

lemma findRootNode_loop_nth:
  "findRootNode_loop i ns = Some (k, n) \<Longrightarrow> i \<le> k \<and> k - i < length ns \<and> ns ! (k - i) = n"
proof (induction ns arbitrary: i)
  case Nil
  then show ?case by simp
next
  case (Cons m ms)
  show ?case
  proof (cases "childNodes m \<noteq> None")
    case True
    with Cons.prems show ?thesis by simp
  next
    case False
    with Cons.prems have "findRootNode_loop (Suc i) ms = Some (k, n)" by simp
    from Cons.IH[OF this] show ?thesis by (auto simp: Suc_diff_Suc)
  qed
qed

lemma findRootNode_at:
  assumes "findRootNode document = Inr (Some (k, rootNode))"
  shows "node_at document [k] = Some rootNode"
proof -
  from assms obtain ns where ns: "childNodes document = Some ns"
    and l: "findRootNode_loop 0 ns = Some (k, rootNode)"
    by (auto simp: findRootNode_def split: option.splits)
  from findRootNode_loop_nth[OF l] ns show ?thesis by simp
qed

lemma walk_raises_without_table:
  "walk (findLinks_node X None callback) p n s = Inl TypeError"
  by (cases n) (simp add: findLinks_node_def)

text \<open>
  A property of the array of links that holds of the empty array and that every call of
  the callback, at a node of the document that the last table has, keeps, holds of the
  links of \<open>scrapeHtml\<close>.
\<close>

lemma scrapeHtml_invariant:
  assumes step: "\<And>base q m linkAttrs attrName u links links'.
      node_at document q = Some m \<Longrightarrow> last tags' (nodeName m) = Some linkAttrs \<Longrightarrow>
      linkAttrs attrName \<Longrightarrow> I links \<Longrightarrow>
      scrapeHtml_callback X document base pageUrl q m attrName u links = Inr links' \<Longrightarrow> I links'"
    and init: "I []"
    and s: "scrapeHtml X tags' document pageUrl robots' = Inr (links, robots1)"
  shows "tags' \<noteq> [] \<and> I links"
proof -
  from s obtain k rootNode base where
    root: "findRootNode document = Inr (Some (k, rootNode))"
    and f: "findLinks X tags' [k] rootNode (scrapeHtml_callback X document base pageUrl) [] = Inr links"
    by (auto simp: scrapeHtml_def split: sum.splits option.splits)
  have ne: "tags' \<noteq> []"
  proof
    assume "tags' = []"
    with f show False
      by (simp add: findLinks_def maxFilterLevel_def walk_raises_without_table)
  qed
  then have m: "maxFilterLevel tags' = Some (last tags')"
    by (simp add: maxFilterLevel_def last_conv_nth)
  from f m obtain b where
    w: "walk (findLinks_node X (Some (last tags')) (scrapeHtml_callback X document base pageUrl))
          [k] rootNode [] = Inr (b, links)"
    by (auto simp: findLinks_def split: sum.splits)
  have node_step: "\<And>q m s b s'. node_at document q = Some m \<Longrightarrow> I s \<Longrightarrow>
      findLinks_node X (Some (last tags')) (scrapeHtml_callback X document base pageUrl) q m s = Inr (b, s') \<Longrightarrow>
      I s'"
  proof -
    fix q m s b s'
    assume at: "node_at document q = Some m" and Is: "I s"
      and fn: "findLinks_node X (Some (last tags')) (scrapeHtml_callback X document base pageUrl) q m s = Inr (b, s')"
    show "I s'"
      by (rule findLinks_node_invariant[of "last tags'" m I "scrapeHtml_callback X document base pageUrl" q,
            OF step[OF at] Is fn])
  qed
  from walk_invariant_at(1)[of document I _ "[k]" rootNode "[]" b links,
      OF node_step findRootNode_at[OF root] init w]
  have "I links" .
  with ne show ?thesis by simp
qed

lemma scrapeHtml_callback_append:
  assumes "scrapeHtml_callback X document base pageUrl p node attrName u links = Inr links'"
  shows "\<exists>l. links' = links @ [l] \<and> html_tagName (html l) = nodeName node \<and>
             html_attrName (html l) = attrName \<and> html_index (html l) = int (length links) \<and>
             url_original l = u \<and> getSelector document p = Inr (html_selector (html l))"
  using assms
  by (auto simp: scrapeHtml_callback_def Let_def split: sum.splits)

lemma scrapeHtml_scraped:
  assumes "scrapeHtml X tags' document pageUrl robots' = Inr (links, robots1)"
  shows "tags' \<noteq> [] \<and> scraped (last tags') links"
proof (rule scrapeHtml_invariant[of document tags' "scraped (last tags')", OF _ _ assms])
  show "scraped (last tags') []" by (simp add: scraped_def)
next
  fix base q m linkAttrs attrName u links links'
  assume t: "last tags' (nodeName m) = Some linkAttrs" and a: "linkAttrs attrName"
    and I: "scraped (last tags') links"
    and c: "scrapeHtml_callback X document base pageUrl q m attrName u links = Inr links'"
  from scrapeHtml_callback_append[OF c] obtain l where l: "links' = links @ [l]"
    "html_tagName (html l) = nodeName m" "html_attrName (html l) = attrName"
    "html_index (html l) = int (length links)" by blast
  from l(2,3) t a have "from_table (last tags') l" by (simp add: from_table_def)
  with I l(1,4) show "scraped (last tags') links'"
    by (auto simp: scraped_def nth_append)
qed

text \<open>
  The pass of a scan over the links of the scraper: the indices of \<open>scrapeHtml\<close> are
  \<open>0..N-1\<close>, so the offset indices of a scan that starts with the counter at 0 are as
  in \<open>forEach_offsets\<close>.
\<close>

lemma scan_parsed_offsets:
  assumes "scan_parsed X tags' on_complete i document = Inr (i', links')"
    and "excludedLinks i = 0"
  shows "map (\<lambda>l. html_offsetIndex (html l)) (filter included links') =
           map (\<lambda>j. Some (int j)) [0..<length (filter included links')] \<and>
         map (\<lambda>l. html_offsetIndex (html l)) (filter junk links') =
           map (\<lambda>j. Some (int j)) [0..<length (filter junk links')]"
proof -
  from assms(1) obtain links robots1 i1 where
    sc: "scrapeHtml X tags' document (baseUrl i) (robots i) = Inr (links, robots1)"
    and fe: "forEach_maybeEnqueueLink X (emit EvHtml (i\<lparr>robots := robots1\<rparr>)) links = Inr (i1, links')"
    by (auto simp: scan_parsed_def scan_then_def split: sum.splits)
  from scrapeHtml_scraped[OF sc]
  have ix: "\<forall>k<length links. html_index (html (links ! k)) = 0 + int k"
    by (simp add: scraped_def)
  have e0: "excludedLinks (emit EvHtml (i\<lparr>robots := robots1\<rparr>)) = 0"
    using assms(2) by (simp add: emit_def)
  from forEach_offsets[OF fe ix] e0 show ?thesis by simp
qed

text \<open>
  C2, as the specification words it, fails: the scraper does not look the element up in
  the table of the configured filter level. With the filter level 0 configured, whose
  table has no \<open>img\<close>, the scraper does not skip the \<open>img\<close> of the example document: it
  yields the link of its \<open>src\<close>.
\<close>

theorem scraper_filter_level_counterexample:
  "filterLevel ex_options = 0 \<and>
   (tags ex_options ! filterLevel ex_options) ''img'' = None \<and>
   (case scrapeHtml ex_ext (tags ex_options) ex_document_img None None of
      Inl e \<Rightarrow> []
    | Inr (links, r) \<Rightarrow>
        map (\<lambda>l. (html_tagName (html l), html_attrName (html l), url_original l)) links) =
     [(''img'', ''src'', ''x.png'')]"
  by (simp add: scrapeHtml_def ex_document_img_def element_def findRootNode_def
      findPreliminaries_def findPreliminaries_node_def findLinks_def findLinks_node_def
      maxFilterLevel_def attr_url_def call_callback_def scrapeHtml_callback_def getSelector_def
      getNthIndex_def getText_def trim_def isWhiteSpace_def Let_def digit_def ex_options_def
      ex_tags_def ex_ext_def)

lemma rule_html_from_table:
  "rule_html X i l = (\<not> from_table (tags (options i) ! filterLevel (options i)) l)"
  by (simp add: rule_html_def from_table_def split: option.splits)

text \<open>
  C2, amended. The scraper looks every element up in the table of the maximal filter
  level, the last of \<open>tags\<close>, whatever filter level is configured (it has no such
  argument), and skips the element if it is not in that table: every link that
  \<open>scrapeHtml\<close> yields comes from an element and an attribute of the last table. The
  configured filter level is applied afterwards by the orchestrator: \<open>maybeExcludeLink\<close>
  excludes, for the reason \<open>BLC_HTML\<close>, a link that does not come from the table of the
  configured level.
\<close>

theorem scraper_reads_max_filter_level:
  "(scrapeHtml X tags' document pageUrl robots' = Inr (links, robots1) \<longrightarrow>
      tags' \<noteq> [] \<and> (\<forall>l \<in> set links. from_table (last tags') l)) \<and>
   (filterLevel (options i) < length (tags (options i)) \<and>
    \<not> from_table (tags (options i) ! filterLevel (options i)) l \<longrightarrow>
      maybeExcludeLink X i l = Inr (Some ''BLC_HTML''))"
proof (intro conjI impI)
  assume "scrapeHtml X tags' document pageUrl robots' = Inr (links, robots1)"
  from scrapeHtml_scraped[OF this]
  show "tags' \<noteq> []" and "\<forall>l \<in> set links. from_table (last tags') l"
    by (simp_all add: scraped_def)
next
  assume a: "filterLevel (options i) < length (tags (options i)) \<and>
    \<not> from_table (tags (options i) ! filterLevel (options i)) l"
  then have "rule_html X i l" by (simp add: rule_html_from_table)
  with a show "maybeExcludeLink X i l = Inr (Some ''BLC_HTML'')"
    by (simp add: maybeExcludeLink_def Let_def rule_html_def)
qed

text \<open>
  The link of the \<open>img\<close> of the example document comes from the last table, not from the
  table of level 0, and the orchestrator excludes it at level 0.
\<close>

theorem scraper_reads_max_filter_level_witness:
  "\<exists>links r.
     scrapeHtml ex_ext ex_tags ex_document_img None None = Inr (links, r) \<and>
     length links = 1 \<and>
     from_table (last ex_tags) (hd links) \<and>
     filterLevel (options ex_idle) < length (tags (options ex_idle)) \<and>
     \<not> from_table (tags (options ex_idle) ! filterLevel (options ex_idle)) (hd links) \<and>
     maybeExcludeLink ex_ext ex_idle (hd links) = Inr (Some ''BLC_HTML'')"
proof -
  have "\<exists>links r.
     scrapeHtml ex_ext ex_tags ex_document_img None None = Inr (links, r) \<and>
     length links = 1 \<and>
     from_table (last ex_tags) (hd links) \<and>
     \<not> from_table (tags (options ex_idle) ! filterLevel (options ex_idle)) (hd links)"
    by (simp add: scrapeHtml_def ex_document_img_def element_def findRootNode_def
        findPreliminaries_def findPreliminaries_node_def findLinks_def findLinks_node_def
        maxFilterLevel_def attr_url_def call_callback_def scrapeHtml_callback_def getSelector_def
        getNthIndex_def getText_def trim_def isWhiteSpace_def Let_def digit_def ex_defs
        from_table_def)
  then obtain links r where
    s: "scrapeHtml ex_ext ex_tags ex_document_img None None = Inr (links, r)"
    and n: "length links = 1"
    and f: "from_table (last ex_tags) (hd links)"
    and nf: "\<not> from_table (tags (options ex_idle) ! filterLevel (options ex_idle)) (hd links)"
    by (elim exE conjE)
  have lv: "filterLevel (options ex_idle) < length (tags (options ex_idle))"
    by (simp add: ex_defs)
  from scraper_reads_max_filter_level
    [of ex_ext ex_tags ex_document_img None None links r ex_idle "hd links"] lv nf
  have "maybeExcludeLink ex_ext ex_idle (hd links) = Inr (Some ''BLC_HTML'')" by simp
  with s n f lv nf show ?thesis by (intro exI conjI)
qed

section \<open>The value of an attribute\<close>

lemma trim_split:
  "\<exists>pre post. v = pre @ trim v @ post \<and> (\<forall>c \<in> set pre. isWhiteSpace c) \<and> (\<forall>c \<in> set post. isWhiteSpace c)"
proof -
  let ?w = "dropWhile isWhiteSpace v"
  have 1: "v = takeWhile isWhiteSpace v @ ?w" by simp
  have 2: "?w = trim v @ rev (takeWhile isWhiteSpace (rev ?w))"
    by (simp only: trim_def rev_append[symmetric] takeWhile_dropWhile_id rev_rev_ident)
  have "v = takeWhile isWhiteSpace v @ trim v @ rev (takeWhile isWhiteSpace (rev ?w))"
    using 1 2 by metis
  moreover have "\<forall>c \<in> set (takeWhile isWhiteSpace v). isWhiteSpace c"
    by (auto dest: set_takeWhileD)
  moreover have "\<forall>c \<in> set (rev (takeWhile isWhiteSpace (rev ?w))). isWhiteSpace c"
    by (auto dest: set_takeWhileD)
  ultimately show ?thesis by blast
qed

lemma trim_ends:
  "trim v = [] \<or> (\<not> isWhiteSpace (hd (trim v)) \<and> \<not> isWhiteSpace (last (trim v)))"
proof (cases "trim v = []")
  case True
  then show ?thesis by simp
next
  case False
  let ?w = "dropWhile isWhiteSpace v"
  let ?r = "dropWhile isWhiteSpace (rev ?w)"
  from False have r: "?r \<noteq> []" by (simp add: trim_def)
  then have "\<not> isWhiteSpace (hd ?r)" by (rule hd_dropWhile)
  then have l: "\<not> isWhiteSpace (last (trim v))"
    using r by (simp add: trim_def last_rev)
  have w: "?w \<noteq> []"
  proof
    assume e: "?w = []"
    have "dropWhile isWhiteSpace (rev []) = ([] :: string)" by simp
    with e r show False by metis
  qed
  then have hw: "\<not> isWhiteSpace (hd ?w)" by (rule hd_dropWhile)
  have "?w = trim v @ rev (takeWhile isWhiteSpace (rev ?w))"
    by (simp only: trim_def rev_append[symmetric] takeWhile_dropWhile_id rev_rev_ident)
  then have "hd ?w = hd (trim v)" using False by (metis hd_append2)
  with hw l show ?thesis by simp
qed

lemma attr_url_default:
  assumes "attrName \<notin> {''content'', ''ping'', ''srcset''}"
    and "map_of (attrMap node) attrName = Some v"
  shows "attr_url X node attrName = Inr (UrlString (trim v))"
  using assms by (simp add: attr_url_def)

text \<open>
  C4, as the specification words it, fails: the \<open>href\<close> of the \<open>a\<close> of the example
  document is two spaces, empty after trimming, and the scraper yields a link for it,
  with the empty string as its URL.
\<close>

theorem empty_url_counterexample:
  "trim ''  '' = [] \<and>
   (case scrapeHtml ex_ext ex_tags ex_document_blank None None of
      Inl e \<Rightarrow> []
    | Inr (links, r) \<Rightarrow>
        map (\<lambda>l. (html_tagName (html l), html_attrName (html l), url_original l)) links) =
     [(''a'', ''href'', '''')]"
  by (simp add: scrapeHtml_def ex_document_blank_def element_def findRootNode_def
      findPreliminaries_def findPreliminaries_node_def findLinks_def findLinks_node_def
      maxFilterLevel_def attr_url_def call_callback_def scrapeHtml_callback_def getSelector_def
      getNthIndex_def getText_def trim_def isWhiteSpace_def Let_def digit_def ex_tags_def
      ex_ext_def)

text \<open>
  C4, amended. For every recognized attribute other than \<open>content\<close>, \<open>ping\<close> and
  \<open>srcset\<close>, the scraper trims the white space around the value of the attribute and
  calls the callback once with the trimmed value, empty or not, before it goes on with
  the attributes that follow. The trimmed value is the value without a prefix and a
  suffix of white space, and neither starts nor ends with white space.
\<close>

theorem trimmed_value_is_a_candidate:
  assumes "linkAttrs attrName"
    and "attrName \<notin> {''content'', ''ping'', ''srcset''}"
    and "map_of (attrMap node) attrName = Some v"
  shows "findLinks_attrs X linkAttrs callback node ((attrName, v') # as) s =
           (case callback node attrName (trim v) s of
              Inl e \<Rightarrow> Inl e
            | Inr s1 \<Rightarrow> findLinks_attrs X linkAttrs callback node as s1) \<and>
         (\<exists>pre post. v = pre @ trim v @ post \<and>
            (\<forall>c \<in> set pre. isWhiteSpace c) \<and> (\<forall>c \<in> set post. isWhiteSpace c)) \<and>
         (trim v = [] \<or> (\<not> isWhiteSpace (hd (trim v)) \<and> \<not> isWhiteSpace (last (trim v))))"
proof -
  have "findLinks_attrs X linkAttrs callback node ((attrName, v') # as) s =
           (case callback node attrName (trim v) s of
              Inl e \<Rightarrow> Inl e
            | Inr s1 \<Rightarrow> findLinks_attrs X linkAttrs callback node as s1)"
    using assms(1) attr_url_default[OF assms(2,3), of X]
    by (simp add: call_callback_def)
  with trim_split[of v] trim_ends[of v] show ?thesis by blast
qed

text \<open>The \<open>href\<close> \<open>" x "\<close> and the \<open>href\<close> \<open>"  "\<close> of an \<open>a\<close>: one call each.\<close>

theorem trimmed_value_is_a_candidate_witness:
  "findLinks_attrs ex_ext (\<lambda>a. a = ''href'') (\<lambda>n a u s. Inr (s @ [u]))
     (element ''a'' [(''href'', '' x '')] []) [(''href'', '' x '')] [] = Inr [''x''] \<and>
   trim '' x '' = ''x'' \<and>
   findLinks_attrs ex_ext (\<lambda>a. a = ''href'') (\<lambda>n a u s. Inr (s @ [u]))
     (element ''a'' [(''href'', ''  '')] []) [(''href'', ''  '')] [] = Inr ['''']"
  using trimmed_value_is_a_candidate
    [of "\<lambda>a. a = ''href''" "''href''" "element ''a'' [(''href'', '' x '')] []" "'' x ''" ex_ext
        "\<lambda>n a u s. Inr (s @ [u])" "'' x ''" "[]" "[]"]
    trimmed_value_is_a_candidate
    [of "\<lambda>a. a = ''href''" "''href''" "element ''a'' [(''href'', ''  '')] []" "''  ''" ex_ext
        "\<lambda>n a u s. Inr (s @ [u])" "''  ''" "[]" "[]"]
  by (simp add: element_def trim_def isWhiteSpace_def attr_url_def call_callback_def)

section \<open>The selector of an element\<close>

lemma getNthIndex_loop_count:
  "getNthIndex_loop cs k c = c + length (filter element_node (take k cs))"
proof (induction cs arbitrary: k c)
  case Nil
  show ?case by simp
next
  case (Cons x xs)
  show ?case
  proof (cases k)
    case 0
    then show ?thesis by simp
  next
    case (Suc k')
    with Cons.IH[of k'] show ?thesis
      by (simp add: element_node_def)
  qed
qed

lemma special_names:
  "(x \<noteq> ''html'' \<and> ((of_bool (x \<noteq> ''body'') AND of_bool (x \<noteq> ''head'')) :: int) \<noteq> 0) =
   (x \<notin> {''html'', ''head'', ''body''})"
  by (cases "x = ''body''"; cases "x = ''head''") simp_all

lemma getSelector_step:
  assumes q: "node_at document (q @ [k]) = Some n"
    and nd: "nodeName n \<noteq> ''#document''"
  shows "getSelector_loop document (q @ [k]) sel =
         getSelector_loop document q (sel @ [selector_segment document (q @ [k])])"
proof -
  from q obtain parent cs where par: "node_at document q = Some parent"
    and cs: "childNodes parent = Some cs" and k: "k < length cs"
    by (auto simp: node_at_snoc split: option.splits if_splits)
  have nth: "getNthIndex document (q @ [k]) = Inr (1 + length (filter element_node (take k cs)))"
    by (simp add: getNthIndex_def par cs getNthIndex_loop_count)
  have sib: "siblings document (q @ [k]) = cs"
    by (simp add: siblings_def par cs)
  show ?thesis
    apply (subst getSelector_loop.simps)
    apply (simp only: q option.case nd if_False special_names)
    apply (simp add: selector_segment_def q nth sib del: getSelector_loop.simps)
    done
qed

lemma getSelector_loop_prefix:
  assumes top: "nodeName document = ''#document''"
    and p: "node_at document p = Some node"
    and below: "\<forall>k n. 0 < k \<and> k \<le> length p \<and> node_at document (take k p) = Some n \<longrightarrow>
                  nodeName n \<noteq> ''#document''"
  shows "j \<le> length p \<Longrightarrow>
         getSelector_loop document (take j p) sel =
           Inr (sel @ rev (map (selector_segment document) (map (\<lambda>k. take k p) [1..<Suc j])))"
proof (induction j arbitrary: sel)
  case 0
  show ?case using top by simp
next
  case (Suc j)
  then have j: "j < length p" by simp
  from node_at_take[OF p, of "Suc j"] obtain n where n: "node_at document (take (Suc j) p) = Some n"
    by blast
  from j have "0 < Suc j \<and> Suc j \<le> length p" by simp
  with below n have nd: "nodeName n \<noteq> ''#document''" by blast
  have tk: "take (Suc j) p = take j p @ [p ! j]"
    using j by (simp add: take_Suc_conv_app_nth)
  from getSelector_step[of document "take j p" "p ! j" n sel] n nd tk
  have "getSelector_loop document (take (Suc j) p) sel =
        getSelector_loop document (take j p) (sel @ [selector_segment document (take (Suc j) p)])"
    by simp
  also have "\<dots> = Inr ((sel @ [selector_segment document (take (Suc j) p)]) @
      rev (map (selector_segment document) (map (\<lambda>k. take k p) [1..<Suc j])))"
    using Suc.IH[of "sel @ [selector_segment document (take (Suc j) p)]"] j by simp
  finally show ?case by simp
qed

lemma getSelector_path:
  assumes "nodeName document = ''#document''"
    and "node_at document p = Some node"
    and "\<forall>k n. 0 < k \<and> k \<le> length p \<and> node_at document (take k p) = Some n \<longrightarrow>
           nodeName n \<noteq> ''#document''"
  shows "getSelector document p =
           Inr (join '' > '' (map (selector_segment document) (ancestor_paths p)))"
  using getSelector_loop_prefix[OF assms, of "length p" "[]"]
  by (simp add: getSelector_def ancestor_paths_def)

text \<open>
  C9. For the node at a path \<open>p\<close> of a tree whose top is the document (the one node
  named \<open>#document\<close> on the path), \<open>getSelector\<close> raises nothing, and the selector is made
  of the segments of the nodes from the child of the document down to the node, joined
  with \<open>" > "\<close>: the name of each, with the suffix \<open>:nth-child(k)\<close> for a name other than
  \<open>html\<close>, \<open>head\<close> and \<open>body\<close>, where \<open>k\<close> is one plus the number of elements among the
  siblings before it (texts and comments are not counted).
\<close>

theorem getSelector_segments:
  assumes "nodeName document = ''#document''"
    and "node_at document p = Some node"
    and "\<forall>k n. 0 < k \<and> k \<le> length p \<and> node_at document (take k p) = Some n \<longrightarrow>
           nodeName n \<noteq> ''#document''"
  shows "getSelector document p =
           Inr (join '' > '' (map (selector_segment document) (ancestor_paths p)))"
  using assms by (rule getSelector_path)

text \<open>
  The \<open>a\<close> of the example document is the fourth child of \<open>body\<close>, after a text, a \<open>p\<close>
  and a comment: the second element.
\<close>

theorem getSelector_segments_witness:
  "nodeName ex_document_mixed = ''#document'' \<and>
   node_at ex_document_mixed [1, 1, 3] = Some (element ''a'' [(''href'', ''http://blc/y'')] []) \<and>
   map (selector_segment ex_document_mixed) (ancestor_paths [1, 1, 3]) =
     [''html'', ''body'', ''a:nth-child(2)''] \<and>
   getSelector ex_document_mixed [1, 1, 3] = Inr ''html > body > a:nth-child(2)''"
proof -
  have h1: "nodeName ex_document_mixed = ''#document''"
    by (simp add: ex_document_mixed_def)
  have h2: "node_at ex_document_mixed [1, 1, 3] = Some (element ''a'' [(''href'', ''http://blc/y'')] [])"
    by (simp add: ex_document_mixed_def element_def)
  have h3: "\<forall>k n. 0 < k \<and> k \<le> length [1, 1, 3 :: nat] \<and>
      node_at ex_document_mixed (take k [1, 1, 3]) = Some n \<longrightarrow> nodeName n \<noteq> ''#document''"
  proof (intro allI impI)
    fix k n
    assume a: "0 < k \<and> k \<le> length [1, 1, 3 :: nat] \<and>
      node_at ex_document_mixed (take k [1, 1, 3]) = Some n"
    then have "k = 1 \<or> k = 2 \<or> k = 3" by auto
    with a show "nodeName n \<noteq> ''#document''"
      by (auto simp: ex_document_mixed_def element_def)
  qed
  have paths: "ancestor_paths [1, 1, 3] = [[1], [1, 1], [1, 1, 3]]"
    by (simp add: ancestor_paths_def upt_rec)
  have segs: "map (selector_segment ex_document_mixed) (ancestor_paths [1, 1, 3]) =
     [''html'', ''body'', ''a:nth-child(2)'']"
    unfolding paths
    by (simp add: selector_segment_def siblings_def element_node_def
        ex_document_mixed_def element_def digit_def)
  from getSelector_segments[OF h1 h2 h3] segs h1 h2 show ?thesis
    by simp
qed

text \<open>
  The selectors of the links of \<open>scrapeHtml\<close>, for a document that is the one node of its
  tree named \<open>#document\<close>: the selector of every link is made of the segments of a node of
  the document that has the tag name of the link.
\<close>

lemma scrapeHtml_selectors:
  assumes top: "nodeName document = ''#document''"
    and below: "\<forall>q n. q \<noteq> [] \<and> node_at document q = Some n \<longrightarrow> nodeName n \<noteq> ''#document''"
    and s: "scrapeHtml X tags' document pageUrl robots' = Inr (links, robots1)"
  shows "\<forall>l \<in> set links. \<exists>p n. node_at document p = Some n \<and>
           nodeName n = html_tagName (html l) \<and>
           html_selector (html l) =
             join '' > '' (map (selector_segment document) (ancestor_paths p))"
proof -
  let ?I = "\<lambda>links. \<forall>l \<in> set links. \<exists>p n. node_at document p = Some n \<and>
           nodeName n = html_tagName (html l) \<and>
           html_selector (html l) =
             join '' > '' (map (selector_segment document) (ancestor_paths p))"
  have "tags' \<noteq> [] \<and> ?I links"
  proof (rule scrapeHtml_invariant[of document tags' ?I, OF _ _ s])
    show "?I []" by simp
  next
    fix base q m linkAttrs attrName u links links'
    assume at: "node_at document q = Some m" and I: "?I links"
      and c: "scrapeHtml_callback X document base pageUrl q m attrName u links = Inr links'"
    from scrapeHtml_callback_append[OF c] obtain l where l: "links' = links @ [l]"
      "html_tagName (html l) = nodeName m"
      "getSelector document q = Inr (html_selector (html l))" by blast
    have b: "\<forall>k n. 0 < k \<and> k \<le> length q \<and> node_at document (take k q) = Some n \<longrightarrow>
        nodeName n \<noteq> ''#document''"
    proof (intro allI impI)
      fix k n
      assume a: "0 < k \<and> k \<le> length q \<and> node_at document (take k q) = Some n"
      then have "take k q \<noteq> []" by auto
      with below a show "nodeName n \<noteq> ''#document''" by blast
    qed
    from getSelector_path[OF top at b] l(3)
    have "html_selector (html l) =
        join '' > '' (map (selector_segment document) (ancestor_paths q))" by simp
    with at l(2) have "\<exists>p n. node_at document p = Some n \<and>
           nodeName n = html_tagName (html l) \<and>
           html_selector (html l) =
             join '' > '' (map (selector_segment document) (ancestor_paths p))" by auto
    with I l(1) show "?I links'" by auto
  qed
  then show ?thesis by simp
qed

end
